theory Spec2Isabelle
  imports Main
begin

section \<open>Package event: the dispatcher\<close>

text \<open>
  The event tags of \<^verbatim>\<open>event.go\<close>, in the order of the \<^verbatim>\<open>iota\<close> block.
\<close>

datatype Event = PreRequest | PostRequest | Click | Submit | RecordStart | RecordStop | RecordReplay

text \<open>
  Go's \<^verbatim>\<open>error\<close> values. The constructors of package \<^verbatim>\<open>errors\<close> are used by the browser
  but the package itself is not among the sources.

  Modelled from the spec: package \<^verbatim>\<open>errors\<close> (\<^verbatim>\<open>NewPageNotLoaded\<close>, \<^verbatim>\<open>NewLocation\<close>). The
  taxonomy of the spec's section 7 gives one kind per constructor; the formatted message
  is kept as the constructor's argument (for \<^verbatim>\<open>NewLocation\<close>, the URL the message names).
  \<open>UrlError\<close> is the \<^verbatim>\<open>*url.Error\<close> in which \<^verbatim>\<open>net/http\<close> wraps every error of
  \<^verbatim>\<open>Client.Do\<close>; \<open>External\<close> is any error made outside the browser (a handler, the
  network, the document parser).
\<close>

datatype error =
    PageNotLoaded string
  | Location string
  | UrlError error
  | External string

text \<open>
  \<^verbatim>\<open>type HandlerFunc func(e Event, sender, args interface{}) error\<close>. A handler is Go code
  with side effects, so it takes and returns the state \<open>'w\<close> of everything it can reach;
  \<open>None\<close> is the \<^verbatim>\<open>nil\<close> error. The two \<^verbatim>\<open>interface{}\<close> arguments are type parameters.
\<close>

type_synonym ('s, 'a, 'w) HandlerFunc = "Event \<Rightarrow> 's \<Rightarrow> 'a \<Rightarrow> 'w \<Rightarrow> error option \<times> 'w"

text \<open>The interface \<^verbatim>\<open>Handler\<close>: a value with a \<^verbatim>\<open>HandleEvent\<close> method.\<close>

datatype ('s, 'a, 'w) Handler = Handler (HandleEvent: "('s, 'a, 'w) HandlerFunc")

text \<open>
  \<^verbatim>\<open>type HandlerMap map[Event][]HandlerFunc\<close>: reading a key that was never written
  gives the nil slice, which \<^verbatim>\<open>append\<close> and \<^verbatim>\<open>range\<close> treat as empty.
\<close>

record ('s, 'a, 'w) Dispatcher =
  handlers :: "Event \<Rightarrow> ('s, 'a, 'w) HandlerFunc list"

definition NewDispatcher :: "('s, 'a, 'w) Dispatcher" where
  "NewDispatcher = \<lparr>handlers = (\<lambda>_. [])\<rparr>"

definition On :: "('s, 'a, 'w) Dispatcher \<Rightarrow> Event \<Rightarrow> ('s, 'a, 'w) Handler \<Rightarrow> ('s, 'a, 'w) Dispatcher" where
  "On ed e handler =
     ed\<lparr>handlers := (handlers ed)(e := handlers ed e @ [\<lambda>e sender args. HandleEvent handler e sender args])\<rparr>"

definition OnFunc :: "('s, 'a, 'w) Dispatcher \<Rightarrow> Event \<Rightarrow> ('s, 'a, 'w) HandlerFunc \<Rightarrow> ('s, 'a, 'w) Dispatcher" where
  "OnFunc ed e handler = ed\<lparr>handlers := (handlers ed)(e := handlers ed e @ [handler])\<rparr>"

text \<open>The \<^verbatim>\<open>for ... range\<close> loop of \<^verbatim>\<open>Do\<close>, with its early return.\<close>

fun Do_loop :: "('s, 'a, 'w) HandlerFunc list \<Rightarrow> Event \<Rightarrow> 's \<Rightarrow> 'a \<Rightarrow> 'w \<Rightarrow> error option \<times> 'w" where
  "Do_loop [] e sender args w = (None, w)"
| "Do_loop (handler # rest) e sender args w =
     (case handler e sender args w of
        (Some err, w') \<Rightarrow> (Some err, w')
      | (None, w') \<Rightarrow> Do_loop rest e sender args w')"

definition Do :: "('s, 'a, 'w) Dispatcher \<Rightarrow> Event \<Rightarrow> 's \<Rightarrow> 'a \<Rightarrow> 'w \<Rightarrow> error option \<times> 'w" where
  "Do ed e sender args w = Do_loop (handlers ed e) e sender args w"

subsection \<open>Observing a dispatch\<close>

text \<open>
  To say which handlers a dispatch invoked, and with what, each handler is wrapped so
  that it appends a record of its invocation to a log kept beside the handlers' state:
  its number, the three arguments it received and the error it returned.
\<close>

record ('s, 'a) Call =
  call_id :: nat
  call_event :: Event
  call_sender :: 's
  call_args :: 'a
  call_result :: "error option"

definition traced :: "nat \<Rightarrow> ('s, 'a, 'w) HandlerFunc \<Rightarrow> ('s, 'a, 'w \<times> ('s, 'a) Call list) HandlerFunc" where
  "traced i h = (\<lambda>e sender args (w, log).
     case h e sender args w of
       (r, w') \<Rightarrow> (r, (w', log @ [\<lparr>call_id = i, call_event = e, call_sender = sender,
                                  call_args = args, call_result = r\<rparr>])))"

text \<open>A registration is one call of \<^verbatim>\<open>On\<close> or of \<^verbatim>\<open>OnFunc\<close>.\<close>

datatype ('s, 'a, 'w) Binding =
    BindOn Event "('s, 'a, 'w) Handler"
  | BindOnFunc Event "('s, 'a, 'w) HandlerFunc"

fun binding_event :: "('s, 'a, 'w) Binding \<Rightarrow> Event" where
  "binding_event (BindOn e h) = e"
| "binding_event (BindOnFunc e h) = e"

fun binding_fun :: "('s, 'a, 'w) Binding \<Rightarrow> ('s, 'a, 'w) HandlerFunc" where
  "binding_fun (BindOn e h) = HandleEvent h"
| "binding_fun (BindOnFunc e h) = h"

fun apply_binding :: "('s, 'a, 'w) Dispatcher \<Rightarrow> ('s, 'a, 'w) Binding \<Rightarrow> ('s, 'a, 'w) Dispatcher" where
  "apply_binding ed (BindOn e h) = On ed e h"
| "apply_binding ed (BindOnFunc e h) = OnFunc ed e h"

definition register :: "('s, 'a, 'w) Dispatcher \<Rightarrow> ('s, 'a, 'w) Binding list \<Rightarrow> ('s, 'a, 'w) Dispatcher" where
  "register ed bs = foldl apply_binding ed bs"

fun trace_binding :: "nat \<Rightarrow> ('s, 'a, 'w) Binding \<Rightarrow> ('s, 'a, 'w \<times> ('s, 'a) Call list) Binding" where
  "trace_binding i (BindOn e h) = BindOn e (Handler (traced i (HandleEvent h)))"
| "trace_binding i (BindOnFunc e h) = BindOnFunc e (traced i h)"

definition traced_bindings :: "('s, 'a, 'w) Binding list \<Rightarrow> ('s, 'a, 'w \<times> ('s, 'a) Call list) Binding list" where
  "traced_bindings bs = map (\<lambda>(i, b). trace_binding i b) (enumerate 0 bs)"

text \<open>The numbers of the registrations made for event \<open>e\<close>, in registration order.\<close>

definition bound_ids :: "Event \<Rightarrow> ('s, 'a, 'w) Binding list \<Rightarrow> nat list" where
  "bound_ids e bs = map fst (filter (\<lambda>(i, b). binding_event b = e) (enumerate 0 bs))"


section \<open>Package browser: data\<close>

datatype Attribute = SendReferer | MetaRefreshHandling | FollowRedirects

record Authorization =
  Username :: string
  Password :: string

text \<open>
  A parsed \<^verbatim>\<open>*url.URL\<close> is kept as the string its \<^verbatim>\<open>String()\<close> method prints.
  \<^verbatim>\<open>http.Header\<close> is \<^verbatim>\<open>map[string][]string\<close>; a key that is absent reads as the nil slice.
  Header maps are reference values in Go, so the model keeps them in a store and the
  structures that point to one hold its address.
\<close>

type_synonym Url = string

type_synonym HeaderMap = "string \<Rightarrow> string list"

record HttpRequest =
  Method :: string
  URL :: Url
  Header :: nat
  Body :: "string option"

record HttpResponse =
  StatusCode :: int
  RespBody :: string

text \<open>
  The document capability (\<^verbatim>\<open>goquery\<close>) is outside the repository. A document is taken
  as what its \<^verbatim>\<open>Find\<close> answers: for each selector expression, the matched elements in
  document order. An element carries its attributes.
\<close>

record Element =
  el_tag :: string
  el_attrs :: "(string \<times> string) list"

type_synonym Selection = "Element list"

type_synonym Document = "string \<Rightarrow> Selection"

text \<open>\<^verbatim>\<open>Selection.Attr\<close>: the attribute of the first element of the selection, if any.\<close>

definition Attr :: "Selection \<Rightarrow> string \<Rightarrow> string option" where
  "Attr sel name = (case sel of [] \<Rightarrow> None | el # _ \<Rightarrow> map_of (el_attrs el) name)"

text \<open>
  Modelled from the spec: \<^verbatim>\<open>jar.State\<close> and \<^verbatim>\<open>jar.NewHistoryState\<close>, which are not among
  the sources. The session state is the triple of request, response and document handle;
  the browser reads the three fields \<^verbatim>\<open>Request\<close>, \<^verbatim>\<open>Response\<close> and \<^verbatim>\<open>Dom\<close> through a
  \<^verbatim>\<open>*jar.State\<close>, each of them a pointer that may be nil.
\<close>

record State =
  Request :: "HttpRequest option"
  Response :: "HttpResponse option"
  Dom :: "Document option"

definition NewHistoryState :: "HttpRequest \<Rightarrow> HttpResponse \<Rightarrow> Document \<Rightarrow> State" where
  "NewHistoryState req resp doc = \<lparr>Request = Some req, Response = Some resp, Dom = Some doc\<rparr>"

text \<open>
  Modelled from the spec: the history jar (\<^verbatim>\<open>jar.History\<close>, \<^verbatim>\<open>jar.NewMemoryHistory\<close>), which
  is not among the sources. It is an ordered sequence of session states, most recent
  last; \<open>Push\<close> appends; \<open>Pop\<close> returns and removes the most recently pushed state, but
  fails (returns empty) if only one entry remains; \<open>Len\<close> is the number of entries. The
  entries are the \<^verbatim>\<open>*jar.State\<close> pointers the browser pushes, nil included.
\<close>

type_synonym History = "State option list"

definition NewMemoryHistory :: History where
  "NewMemoryHistory = []"

definition Push :: "History \<Rightarrow> State option \<Rightarrow> History" where
  "Push h p = h @ [p]"

definition Pop :: "History \<Rightarrow> State option \<times> History" where
  "Pop h = (if 1 < length h then (last h, butlast h) else (None, h))"

definition Len :: "History \<Rightarrow> nat" where
  "Len h = length h"

text \<open>
  A \<^verbatim>\<open>*time.Timer\<close> made by \<^verbatim>\<open>time.NewTimer(d)\<close> is pending until it is stopped. The
  passage of time, and with it the goroutine that waits for the timer and calls
  \<^verbatim>\<open>Reload\<close>, is outside this sequential model.
\<close>

datatype Timer = Armed int | Stopped

text \<open>
  The struct \<^verbatim>\<open>Browser\<close>, together with the objects it points to: \<open>header_maps\<close> is the
  store of header maps and \<open>timers\<close> the timers created so far, \<open>headers\<close> and \<open>refresh\<close>
  being an address and an index into them (\<open>None\<close> for nil). The embedded dispatcher is
  passed beside the browser, since its handlers act on the browser. The cookie jar
  belongs to the state outside the browser, where the client reads and fills it. The
  bookmark and recorder jars and the logger are left out: the functions below only hand
  them on, and the log calls write to the logger and change nothing else.
\<close>

record Browser =
  state :: "State option"
  userAgent :: string
  history :: History
  headers :: "nat option"
  attributes :: "Attribute \<Rightarrow> bool"
  refresh :: "nat option"
  auth :: Authorization
  header_maps :: "nat \<Rightarrow> HeaderMap"
  timers :: "Timer list"

text \<open>
  The handlers bound to the browser's dispatcher receive the browser as \<^verbatim>\<open>sender\<close> and
  may call its methods, so the state they act on is the browser together with the state
  \<open>'x\<close> of everything outside it (the network, the recorder, the handlers' own data).
\<close>

type_synonym 'x World = "Browser \<times> 'x"

datatype Sender = BrowserRef

datatype Args = RequestArg HttpRequest | ResponseArg HttpResponse | UrlArg Url

type_synonym 'x BrowserDispatcher = "(Sender, Args, 'x World) Dispatcher"

text \<open>A Go call either returns or panics.\<close>

datatype 'a outcome = Returned 'a | Panicked

text \<open>
  The collaborators outside the repository.
  \<^item> \<open>url_Parse\<close> is \<^verbatim>\<open>url.Parse\<close>.
  \<^item> \<open>jar_Cookies\<close> is \<^verbatim>\<open>bow.cookies.Cookies(u)\<close>, the cookies the cookie jar holds for a URL,
    each printed as \<^verbatim>\<open>name=value\<close>; the jar's content is part of the outside state.
  \<^item> \<open>roundTrip\<close> is one HTTP exchange of the transport, given the request and the
    contents of its header map; storing the cookies of the response in the jar is part of
    its effect on the outside state. An exchange takes time, and the timers of the Go
    runtime run beside it, so the exchange is also given the timers as they are when it
    starts.
  \<^item> \<open>redirect_of\<close> is the follow-up request the \<^verbatim>\<open>net/http\<close> client builds when a response
    is a redirect, with the header map the client makes for it.
  \<^item> \<open>NewDocumentFromResponse\<close> is the document parser of \<^verbatim>\<open>goquery\<close>,
    \<open>ParseDuration\<close> is \<^verbatim>\<open>time.ParseDuration\<close> (in nanoseconds) and \<open>EncodeToString\<close> is
    \<^verbatim>\<open>base64.StdEncoding.EncodeToString\<close>.
\<close>

record 'x Collab =
  url_Parse :: "string \<Rightarrow> error + Url"
  jar_Cookies :: "Url \<Rightarrow> 'x \<Rightarrow> string list"
  roundTrip :: "HttpRequest \<Rightarrow> HeaderMap \<Rightarrow> Timer list \<Rightarrow> 'x \<Rightarrow> (error + HttpResponse) \<times> 'x"
  redirect_of :: "HttpRequest \<Rightarrow> HeaderMap \<Rightarrow> HttpResponse \<Rightarrow> (HttpRequest \<times> HeaderMap) option"
  NewDocumentFromResponse :: "HttpResponse \<Rightarrow> error + Document"
  ParseDuration :: "string \<Rightarrow> error + int"
  EncodeToString :: "string \<Rightarrow> string"

section \<open>Package browser: operations\<close>

definition Header_Add :: "HeaderMap \<Rightarrow> string \<Rightarrow> string \<Rightarrow> HeaderMap" where
  \<comment> \<open>\<^verbatim>\<open>h[key] = append(h[key], value)\<close>; the keys used below are in canonical form already\<close>
  "Header_Add h key v = h(key := h key @ [v])"

definition heap_Add :: "nat \<Rightarrow> string \<Rightarrow> string \<Rightarrow> Browser \<Rightarrow> Browser" where
  \<comment> \<open>\<^verbatim>\<open>Add\<close> through a reference: the map at address \<open>a\<close> is updated in place\<close>
  "heap_Add a key v b = b\<lparr>header_maps := (header_maps b)(a := Header_Add (header_maps b a) key v)\<rparr>"

definition basicAuth :: "'x Collab \<Rightarrow> string \<Rightarrow> string \<Rightarrow> string" where
  "basicAuth env username password = EncodeToString env (username @ '':'' @ password)"

text \<open>
  \<^verbatim>\<open>http.NewRequest(method, urlStr, nil)\<close> parses the URL again and fails when that
  fails. The header map it allocates for the request is dropped by the assignment that
  follows it in \<^verbatim>\<open>buildRequest\<close> and is not modelled.

  \<^verbatim>\<open>buildRequest\<close>: \<^verbatim>\<open>req.Header = bow.headers\<close> copies the reference, so the \<^verbatim>\<open>Add\<close> calls
  on \<^verbatim>\<open>req.Header\<close> write to the map \<^verbatim>\<open>bow.headers\<close> points to; on a nil map the first
  \<^verbatim>\<open>Add\<close> panics.
\<close>

definition buildRequest ::
  "'x Collab \<Rightarrow> Browser \<Rightarrow> string \<Rightarrow> Url \<Rightarrow> Url option \<Rightarrow> (error + HttpRequest) outcome \<times> Browser" where
  "buildRequest env b method u ref =
     (case url_Parse env u of
        Inl err \<Rightarrow> (Returned (Inl err), b)
      | Inr u' \<Rightarrow>
          (case headers b of
             None \<Rightarrow> (Panicked, b)
           | Some h \<Rightarrow>
               let req = \<lparr>Method = method, URL = u', Header = h, Body = None\<rparr>;
                   b1 = heap_Add h ''User-Agent'' (userAgent b) b;
                   b2 = (case ref of
                           Some r \<Rightarrow> if attributes b1 SendReferer
                                     then heap_Add h ''Referer'' r b1 else b1
                         | None \<Rightarrow> b1);
                   b3 = (if Username (auth b2) \<noteq> []
                         then heap_Add h ''Authorization''
                                (''Basic '' @ basicAuth env (Username (auth b2)) (Password (auth b2))) b2
                         else b2)
               in (Returned (Inr req), b3)))"

text \<open>\<^verbatim>\<open>shouldRedirect\<close>, the client's \<^verbatim>\<open>CheckRedirect\<close> hook.\<close>

definition shouldRedirect :: "Browser \<Rightarrow> HttpRequest \<Rightarrow> error option" where
  "shouldRedirect b req =
     (if attributes b FollowRedirects then None else Some (Location (URL req)))"

text \<open>
  \<^verbatim>\<open>Request.AddCookie\<close> of \<^verbatim>\<open>net/http\<close>: the cookie is appended to the first \<^verbatim>\<open>Cookie\<close>
  value of the request's header map, after \<^verbatim>\<open>"; "\<close>, or becomes that value if there is
  none or an empty one; \<^verbatim>\<open>Header.Set\<close> leaves a single value.
\<close>

definition AddCookie :: "HeaderMap \<Rightarrow> string \<Rightarrow> HeaderMap" where
  "AddCookie h s =
     (case h ''Cookie'' of
        [] \<Rightarrow> h(''Cookie'' := [s])
      | c # _ \<Rightarrow> if c = [] then h(''Cookie'' := [s]) else h(''Cookie'' := [c @ ''; '' @ s]))"

definition add_cookies :: "HeaderMap \<Rightarrow> string list \<Rightarrow> HeaderMap" where
  "add_cookies h cookies = foldl AddCookie h cookies"

text \<open>
  \<^verbatim>\<open>http.Client.Do\<close> with a cookie jar and a \<^verbatim>\<open>CheckRedirect\<close> hook, after the documentation
  and the source of \<^verbatim>\<open>net/http\<close>. To send a request the client first adds the jar's cookies
  for its URL to the request's own header map, then makes the exchange. When the
  response is a redirect it builds the follow-up request and calls the hook before
  following it; an error of the hook or of the exchange ends the call, wrapped in a
  \<^verbatim>\<open>*url.Error\<close>. The header map of the request handed to \<^verbatim>\<open>Do\<close> is the one its \<open>Header\<close>
  field points to in the store (\<open>own = None\<close>), so the cookies are written there; a
  follow-up request has a map of its own (\<open>own = Some m\<close>) and its \<open>Header\<close> field is not
  read. The timers do not change while the client runs. With a hook of its own the
  client has no bound on the number of hops, so the loop carries fuel, one unit per
  exchange, and \<open>None\<close> is a call that has not returned within it.
\<close>

fun client_loop ::
  "nat \<Rightarrow> 'x Collab \<Rightarrow> (HttpRequest \<Rightarrow> error option) \<Rightarrow> Timer list \<Rightarrow> (nat \<Rightarrow> HeaderMap)
     \<Rightarrow> HeaderMap option \<Rightarrow> HttpRequest \<Rightarrow> 'x
     \<Rightarrow> ((error + HttpResponse) \<times> (nat \<Rightarrow> HeaderMap) \<times> 'x) option" where
  "client_loop 0 env CheckRedirect ts hm own req x = None"
| "client_loop (Suc fuel) env CheckRedirect ts hm own req x =
     (let hdr = add_cookies (case own of None \<Rightarrow> hm (Header req) | Some m \<Rightarrow> m)
                  (jar_Cookies env (URL req) x);
          hm' = (case own of None \<Rightarrow> hm(Header req := hdr) | Some m \<Rightarrow> hm)
      in case roundTrip env req hdr ts x of
           (Inl err, x') \<Rightarrow> Some (Inl (UrlError err), hm', x')
         | (Inr resp, x') \<Rightarrow>
             (case redirect_of env req hdr resp of
                None \<Rightarrow> Some (Inr resp, hm', x')
              | Some (req', m') \<Rightarrow>
                  (case CheckRedirect req' of
                     Some err \<Rightarrow> Some (Inl (UrlError err), hm', x')
                   | None \<Rightarrow> client_loop fuel env CheckRedirect ts hm' (Some m') req' x')))"

definition client_Do ::
  "nat \<Rightarrow> 'x Collab \<Rightarrow> (HttpRequest \<Rightarrow> error option) \<Rightarrow> Timer list \<Rightarrow> (nat \<Rightarrow> HeaderMap)
     \<Rightarrow> HttpRequest \<Rightarrow> 'x
     \<Rightarrow> ((error + HttpResponse) \<times> (nat \<Rightarrow> HeaderMap) \<times> 'x) option" where
  "client_Do fuel env CheckRedirect ts hm req x = client_loop fuel env CheckRedirect ts hm None req x"

text \<open>
  \<^verbatim>\<open>bow.buildClient().Do(req)\<close>: the client has the browser's cookie jar and
  \<^verbatim>\<open>bow.shouldRedirect\<close> as its hook, and runs beside the timers as the browser has them at
  the call.
\<close>

definition buildClient_Do ::
  "nat \<Rightarrow> 'x Collab \<Rightarrow> Browser \<Rightarrow> HttpRequest \<Rightarrow> 'x
     \<Rightarrow> ((error + HttpResponse) \<times> (nat \<Rightarrow> HeaderMap) \<times> 'x) option" where
  "buildClient_Do fuel env b req x =
     client_Do fuel env (shouldRedirect b) (timers b) (header_maps b) req x"

definition doPreRequest :: "'x BrowserDispatcher \<Rightarrow> HttpRequest \<Rightarrow> 'x World \<Rightarrow> error option \<times> 'x World" where
  "doPreRequest d req w = Do d PreRequest BrowserRef (RequestArg req) w"

definition doPostRequest :: "'x BrowserDispatcher \<Rightarrow> HttpResponse \<Rightarrow> 'x World \<Rightarrow> error option \<times> 'x World" where
  "doPostRequest d resp w = Do d PostRequest BrowserRef (ResponseArg resp) w"

definition doClick :: "'x BrowserDispatcher \<Rightarrow> Url \<Rightarrow> 'x World \<Rightarrow> error option \<times> 'x World" where
  "doClick d u w = Do d Click BrowserRef (UrlArg u) w"

text \<open>\<^verbatim>\<open>Find\<close> reads \<^verbatim>\<open>bow.state.Dom\<close>: a nil state or a nil document is a nil dereference.\<close>

definition Find :: "Browser \<Rightarrow> string \<Rightarrow> Selection outcome" where
  "Find b expr =
     (case state b of
        None \<Rightarrow> Panicked
      | Some s \<Rightarrow> (case Dom s of None \<Rightarrow> Panicked | Some doc \<Rightarrow> Returned (doc expr)))"

text \<open>\<^verbatim>\<open>if bow.refresh != nil { bow.refresh.Stop() }\<close>\<close>

definition stopRefresh :: "Browser \<Rightarrow> Browser" where
  "stopRefresh b =
     (case refresh b of
        None \<Rightarrow> b
      | Some t \<Rightarrow> b\<lparr>timers := (timers b)[t := Stopped]\<rparr>)"

definition meta_refresh_selector :: string where
  "meta_refresh_selector = ''meta[http-equiv='' @ [CHR 0x27] @ ''refresh'' @ [CHR 0x27] @ '']''"

text \<open>
  \<^verbatim>\<open>handleMetaRefresh\<close>: \<^verbatim>\<open>time.NewTimer\<close> makes a new pending timer and \<^verbatim>\<open>bow.refresh\<close> is
  pointed at it.
\<close>

definition handleMetaRefresh :: "'x Collab \<Rightarrow> Browser \<Rightarrow> Browser outcome" where
  "handleMetaRefresh env b =
     (if attributes b MetaRefreshHandling then
        (case Find b meta_refresh_selector of
           Panicked \<Rightarrow> Panicked
         | Returned sel \<Rightarrow>
             if 0 < length sel then
               (case Attr sel ''content'' of
                  None \<Rightarrow> Returned b
                | Some attr \<Rightarrow>
                    (case ParseDuration env (attr @ ''s'') of
                       Inl err \<Rightarrow> Returned b
                     | Inr dur \<Rightarrow>
                         Returned (b\<lparr>refresh := Some (length (timers b)),
                                     timers := timers b @ [Armed dur]\<rparr>)))
             else Returned b)
      else Returned b)"

text \<open>
  \<^verbatim>\<open>httpRequest\<close>. The result is \<open>None\<close> when the transport does not return within the
  fuel; otherwise the returned error (\<open>None\<close> for nil) or a panic, and the world the call
  leaves behind. The client is called after the timer has been stopped, and what it has
  written to the request's header map stays written whatever it returns.
\<close>

definition httpRequest ::
  "nat \<Rightarrow> 'x Collab \<Rightarrow> 'x BrowserDispatcher \<Rightarrow> HttpRequest \<Rightarrow> 'x World
     \<Rightarrow> (error option outcome \<times> 'x World) option" where
  "httpRequest fuel env d req w =
     (case doPreRequest d req w of
        (Some err, w1) \<Rightarrow> Some (Returned (Some err), w1)
      | (None, (b1, x1)) \<Rightarrow>
          let b2 = stopRefresh b1 in
          (case buildClient_Do fuel env b2 req x1 of
             None \<Rightarrow> None
           | Some (Inl err, hm2, x2) \<Rightarrow>
               Some (Returned (Some err), (b2\<lparr>header_maps := hm2\<rparr>, x2))
           | Some (Inr resp, hm2, x2) \<Rightarrow>
               (case NewDocumentFromResponse env resp of
                  Inl err \<Rightarrow> Some (Returned (Some err), (b2\<lparr>header_maps := hm2\<rparr>, x2))
                | Inr doc \<Rightarrow>
                    let b3 = b2\<lparr>header_maps := hm2,
                               history := Push (history b2) (state b2)\<rparr>;
                        b4 = b3\<lparr>state := Some (NewHistoryState req resp doc)\<rparr>
                    in (case handleMetaRefresh env b4 of
                          Panicked \<Rightarrow> Some (Panicked, (b4, x2))
                        | Returned b5 \<Rightarrow>
                            (case doPostRequest d resp (b5, x2) of
                               (r, w') \<Rightarrow> Some (Returned r, w'))))))"

definition httpGET ::
  "nat \<Rightarrow> 'x Collab \<Rightarrow> 'x BrowserDispatcher \<Rightarrow> Url \<Rightarrow> Url option \<Rightarrow> 'x World
     \<Rightarrow> (error option outcome \<times> 'x World) option" where
  "httpGET fuel env d u ref w =
     (case w of (b, x) \<Rightarrow>
        (case buildRequest env b ''GET'' u ref of
           (Panicked, b') \<Rightarrow> Some (Panicked, (b', x))
         | (Returned (Inl err), b') \<Rightarrow> Some (Returned (Some err), (b', x))
         | (Returned (Inr req), b') \<Rightarrow> httpRequest fuel env d req (b', x)))"

text \<open>
  \<^verbatim>\<open>httpPOST\<close>: the body is the reader's content (nil for no body); \<^verbatim>\<open>Content-Type\<close> is added
  through \<^verbatim>\<open>req.Header\<close>, the reference \<^verbatim>\<open>buildRequest\<close> copied from the browser.
\<close>

definition httpPOST ::
  "nat \<Rightarrow> 'x Collab \<Rightarrow> 'x BrowserDispatcher \<Rightarrow> Url \<Rightarrow> Url option \<Rightarrow> string \<Rightarrow> string option \<Rightarrow> 'x World
     \<Rightarrow> (error option outcome \<times> 'x World) option" where
  "httpPOST fuel env d u ref contentType body w =
     (case w of (b, x) \<Rightarrow>
        (case buildRequest env b ''POST'' u ref of
           (Panicked, b') \<Rightarrow> Some (Panicked, (b', x))
         | (Returned (Inl err), b') \<Rightarrow> Some (Returned (Some err), (b', x))
         | (Returned (Inr req), b') \<Rightarrow>
             let req' = req\<lparr>Body := body\<rparr>;
                 b'' = heap_Add (Header req') ''Content-Type'' contentType b'
             in httpRequest fuel env d req' (b'', x)))"

definition Open ::
  "nat \<Rightarrow> 'x Collab \<Rightarrow> 'x BrowserDispatcher \<Rightarrow> string \<Rightarrow> 'x World
     \<Rightarrow> (error option outcome \<times> 'x World) option" where
  "Open fuel env d u w =
     (case url_Parse env u of
        Inl err \<Rightarrow> Some (Returned (Some err), w)
      | Inr ur \<Rightarrow> httpGET fuel env d ur None w)"

definition Post ::
  "nat \<Rightarrow> 'x Collab \<Rightarrow> 'x BrowserDispatcher \<Rightarrow> string \<Rightarrow> string \<Rightarrow> string option \<Rightarrow> 'x World
     \<Rightarrow> (error option outcome \<times> 'x World) option" where
  "Post fuel env d u contentType body w =
     (case url_Parse env u of
        Inl err \<Rightarrow> Some (Returned (Some err), w)
      | Inr ur \<Rightarrow> httpPOST fuel env d ur None contentType body w)"

text \<open>
  \<^verbatim>\<open>Back\<close>. After the assignment, the argument of the debug log call,
  \<^verbatim>\<open>bow.state.Request.URL.String()\<close>, is evaluated whether or not a logger is set: a nil
  state or a state without request is a nil dereference.
\<close>

definition Back :: "'x World \<Rightarrow> bool outcome \<times> 'x World" where
  "Back w =
     (case w of (b, x) \<Rightarrow>
        if 1 < Len (history b) then
          (case Pop (history b) of
             (p, h') \<Rightarrow>
               let b' = b\<lparr>history := h', state := p\<rparr> in
               (case p of
                  None \<Rightarrow> (Panicked, (b', x))
                | Some s \<Rightarrow>
                    (case Request s of
                       None \<Rightarrow> (Panicked, (b', x))
                     | Some r \<Rightarrow> (Returned True, (b', x)))))
        else (Returned False, (b, x)))"

text \<open>\<^verbatim>\<open>Reload\<close>: \<^verbatim>\<open>bow.state.Request\<close> dereferences \<^verbatim>\<open>bow.state\<close>.\<close>

definition Reload ::
  "nat \<Rightarrow> 'x Collab \<Rightarrow> 'x BrowserDispatcher \<Rightarrow> 'x World
     \<Rightarrow> (error option outcome \<times> 'x World) option" where
  "Reload fuel env d w =
     (case w of (b, x) \<Rightarrow>
        (case state b of
           None \<Rightarrow> Some (Panicked, (b, x))
         | Some s \<Rightarrow>
             (case Request s of
                Some r \<Rightarrow> httpRequest fuel env d r (b, x)
              | None \<Rightarrow>
                  Some (Returned (Some (PageNotLoaded ''Cannot reload, the previous request failed.'')),
                        (b, x)))))"

text \<open>
  \<^verbatim>\<open>Forms\<close>. \<^verbatim>\<open>make([]Submittable, len)\<close> is a slice of \<open>len\<close> nil entries, and \<^verbatim>\<open>append\<close>
  adds after them. The form constructor \<^verbatim>\<open>newForm\<close> depends on \<^verbatim>\<open>NewForm\<close>, which is not
  among the sources, and is a parameter; \<^verbatim>\<open>Each\<close> hands it the matched elements one by
  one. The nil slice is \<open>None\<close>.
\<close>

definition Forms :: "(Element \<Rightarrow> 'f) \<Rightarrow> Browser \<Rightarrow> 'f option list option outcome" where
  "Forms newForm b =
     (case Find b ''form'' of
        Panicked \<Rightarrow> Panicked
      | Returned sel \<Rightarrow>
          let len = length sel in
          if len = 0 then Returned None
          else Returned (Some (foldl (\<lambda>forms s. forms @ [Some (newForm s)]) (replicate len None) sel)))"

text \<open>
  \<^verbatim>\<open>NewBrowser\<close> of package \<^verbatim>\<open>surf\<close>: the zero \<^verbatim>\<open>Browser\<close> after the setters, none of
  which sets \<^verbatim>\<open>state\<close>. The user agent (\<^verbatim>\<open>agent.Create()\<close>) is a parameter; the headers jar
  (\<^verbatim>\<open>jar.NewMemoryHeaders()\<close>, not among the sources) is taken to be an empty map of its
  own, at address 0; the three attributes default to true. \<^verbatim>\<open>SetRecorderJar\<close> binds the
  recorder to \<^verbatim>\<open>PostRequest\<close> on the new dispatcher.
\<close>

definition NewBrowser :: "string \<Rightarrow> Browser" where
  "NewBrowser ua =
     \<lparr>state = None, userAgent = ua, history = NewMemoryHistory, headers = Some 0,
      attributes = (\<lambda>a. True), refresh = None, auth = \<lparr>Username = [], Password = []\<rparr>,
      header_maps = (\<lambda>a key. []), timers = []\<rparr>"

definition NewBrowser_dispatcher :: "(Sender, Args, 'x World) Handler \<Rightarrow> 'x BrowserDispatcher" where
  "NewBrowser_dispatcher rj = On NewDispatcher PostRequest rj"

text \<open>The setters used below.\<close>

definition SetAttribute :: "Attribute \<Rightarrow> bool \<Rightarrow> Browser \<Rightarrow> Browser" where
  "SetAttribute a v b = b\<lparr>attributes := (attributes b)(a := v)\<rparr>"

definition SetAuthorization :: "string \<Rightarrow> string \<Rightarrow> Browser \<Rightarrow> Browser" where
  "SetAuthorization username password b = b\<lparr>auth := \<lparr>Username = username, Password = password\<rparr>\<rparr>"

definition SetUserAgent :: "string \<Rightarrow> Browser \<Rightarrow> Browser" where
  "SetUserAgent ua b = b\<lparr>userAgent := ua\<rparr>"

section \<open>Notions used to state the properties\<close>

text \<open>
  A handler is an observer when it leaves the browser as it found it (it may change
  anything else). The pipeline dispatches \<open>PreRequest\<close> and \<open>PostRequest\<close> only.
\<close>

definition observer :: "(Sender, Args, 'x World) HandlerFunc \<Rightarrow> bool" where
  "observer h = (\<forall>e sender args b x. fst (snd (h e sender args (b, x))) = b)"

definition observers :: "'x BrowserDispatcher \<Rightarrow> bool" where
  "observers d = (list_all observer (handlers d PreRequest) \<and> list_all observer (handlers d PostRequest))"

text \<open>
  The header map a request of the browser is sent with: the map its \<open>Header\<close> field
  points to, with the cookies of the jar added.
\<close>

definition sent_headers :: "'x Collab \<Rightarrow> Browser \<Rightarrow> HttpRequest \<Rightarrow> 'x \<Rightarrow> HeaderMap" where
  "sent_headers env b req x = add_cookies (header_maps b (Header req)) (jar_Cookies env (URL req) x)"

text \<open>
  A navigation commits when \<open>PreRequest\<close> passes, the transport returns a response and
  the document parses: the conditions under which \<^verbatim>\<open>httpRequest\<close> reaches the history push.
\<close>

definition commits :: "nat \<Rightarrow> 'x Collab \<Rightarrow> 'x BrowserDispatcher \<Rightarrow> HttpRequest \<Rightarrow> 'x World \<Rightarrow> bool" where
  "commits fuel env d req w =
     (case doPreRequest d req w of
        (Some err, w1) \<Rightarrow> False
      | (None, (b1, x1)) \<Rightarrow>
          (case buildClient_Do fuel env (stopRefresh b1) req x1 of
             None \<Rightarrow> False
           | Some (Inl err, hm2, x2) \<Rightarrow> False
           | Some (Inr resp, hm2, x2) \<Rightarrow>
               (case NewDocumentFromResponse env resp of Inl err \<Rightarrow> False | Inr doc \<Rightarrow> True)))"

text \<open>
  A sequence of navigations, one request after the other, each of which commits; the
  result is the world after the last one (\<open>None\<close> if one of them does not commit).
\<close>

fun navigations :: "nat \<Rightarrow> 'x Collab \<Rightarrow> 'x BrowserDispatcher \<Rightarrow> HttpRequest list \<Rightarrow> 'x World \<Rightarrow> 'x World option" where
  "navigations fuel env d [] w = Some w"
| "navigations fuel env d (req # reqs) w =
     (if commits fuel env d req w then
        (case httpRequest fuel env d req w of
           Some (Returned r, w') \<Rightarrow> navigations fuel env d reqs w'
         | _ \<Rightarrow> None)
      else None)"

text \<open>The state a request, a response and a document can make.\<close>

definition state_of_request :: "HttpRequest \<Rightarrow> State \<Rightarrow> bool" where
  "state_of_request req s = (Request s = Some req \<and> Response s \<noteq> None \<and> Dom s \<noteq> None)"

text \<open>A history entry that is a loaded page: a state with its request.\<close>

definition loaded :: "State option \<Rightarrow> bool" where
  "loaded p = (case p of None \<Rightarrow> False | Some s \<Rightarrow> Request s \<noteq> None)"

text \<open>\<open>n\<close> calls of \<^verbatim>\<open>Back\<close> in a row, whatever each returns.\<close>

fun Back_times :: "nat \<Rightarrow> 'x World \<Rightarrow> 'x World" where
  "Back_times 0 w = w"
| "Back_times (Suc n) w = Back_times n (snd (Back w))"

text \<open>The timers that are pending, and the invariant that only \<^verbatim>\<open>bow.refresh\<close> can be.\<close>

definition pending_timers :: "Browser \<Rightarrow> nat list" where
  "pending_timers b = filter (\<lambda>i. timers b ! i \<noteq> Stopped) [0..<length (timers b)]"

definition one_timer :: "Browser \<Rightarrow> bool" where
  "one_timer b = list_all (\<lambda>i. refresh b = Some i) (pending_timers b)"

text \<open>\<open>n\<close> POST navigations to the same URL in a row, each of which returns.\<close>

fun POSTs ::
  "nat \<Rightarrow> nat \<Rightarrow> 'x Collab \<Rightarrow> 'x BrowserDispatcher \<Rightarrow> Url \<Rightarrow> Url option \<Rightarrow> string \<Rightarrow> string option \<Rightarrow> 'x World
     \<Rightarrow> 'x World option" where
  "POSTs 0 fuel env d u ref contentType body w = Some w"
| "POSTs (Suc n) fuel env d u ref contentType body w =
     (case httpPOST fuel env d u ref contentType body w of
        Some (Returned r, w') \<Rightarrow> POSTs n fuel env d u ref contentType body w'
      | _ \<Rightarrow> None)"

text \<open>The header values one request assembly adds, by key.\<close>

definition referer_values :: "Browser \<Rightarrow> Url option \<Rightarrow> string list" where
  "referer_values b ref = (case ref of Some r \<Rightarrow> if attributes b SendReferer then [r] else [] | None \<Rightarrow> [])"

definition authorization_values :: "'x Collab \<Rightarrow> Browser \<Rightarrow> string list" where
  "authorization_values env b =
     (if Username (auth b) \<noteq> []
      then [''Basic '' @ basicAuth env (Username (auth b)) (Password (auth b))] else [])"

definition added_values :: "'x Collab \<Rightarrow> Browser \<Rightarrow> Url option \<Rightarrow> string \<Rightarrow> string \<Rightarrow> string list" where
  "added_values env b ref contentType key =
     (if key = ''User-Agent'' then [userAgent b]
      else if key = ''Referer'' then referer_values b ref
      else if key = ''Authorization'' then authorization_values env b
      else if key = ''Content-Type'' then [contentType]
      else [])"

text \<open>
  An invariant of the browser: it has either never loaded a page (no state, empty
  history), or its current state is a loaded page and so is every history entry above
  the first.
\<close>

definition well_formed :: "Browser \<Rightarrow> bool" where
  "well_formed b =
     (if history b = [] then state b = None
      else loaded (state b) \<and> list_all loaded (tl (history b)))"

text \<open>
  The same collaborators, except that every exchange is shown all timers as stopped,
  whatever they are when it starts.
\<close>

definition timers_hidden :: "'x Collab \<Rightarrow> 'x Collab" where
  "timers_hidden env =
     env\<lparr>roundTrip := (\<lambda>req hdr ts x. roundTrip env req hdr (map (\<lambda>t. Stopped) ts) x)\<rparr>"

text \<open>Both invariants together.\<close>

definition sound :: "Browser \<Rightarrow> bool" where
  "sound b = (well_formed b \<and> one_timer b)"

text \<open>
  The calls a user of the browser can make on it, and the world after a sequence of them
  (\<open>None\<close> if one of the calls does not return; a call that panics leaves the world as
  it was at the panic).
\<close>

datatype Action =
    CallOpen string
  | CallPost string string "string option"
  | CallBack
  | CallReload

fun perform :: "nat \<Rightarrow> 'x Collab \<Rightarrow> 'x BrowserDispatcher \<Rightarrow> Action \<Rightarrow> 'x World \<Rightarrow> 'x World option" where
  "perform fuel env d (CallOpen u) w = map_option snd (Open fuel env d u w)"
| "perform fuel env d (CallPost u contentType body) w = map_option snd (Post fuel env d u contentType body w)"
| "perform fuel env d CallBack w = Some (snd (Back w))"
| "perform fuel env d CallReload w = map_option snd (Reload fuel env d w)"

fun perform_all :: "nat \<Rightarrow> 'x Collab \<Rightarrow> 'x BrowserDispatcher \<Rightarrow> Action list \<Rightarrow> 'x World \<Rightarrow> 'x World option" where
  "perform_all fuel env d [] w = Some w"
| "perform_all fuel env d (a # as) w =
     (case perform fuel env d a w of
        None \<Rightarrow> None
      | Some w' \<Rightarrow> perform_all fuel env d as w')"

subsection \<open>A small world to run the definitions in\<close>

text \<open>
  The outside state is a number: every exchange adds 1 to it, the recorder 100 and the
  vetoing handler 1000. The cookie jar holds a session cookie once the number is positive.
  An exchange that starts while a timer is pending fails. Otherwise the server redirects
  \<^verbatim>\<open>/old\<close> to \<^verbatim>\<open>/new\<close>, refuses connections to the host \<^verbatim>\<open>down\<close> and answers everything
  else with the URL as body; the page at \<^verbatim>\<open>/forms\<close> has two forms, the page at \<^verbatim>\<open>/refresh\<close>
  a refresh directive of two seconds and the page at \<^verbatim>\<open>/badrefresh\<close> one that is no
  number. The base64 encoder is the identity here.
\<close>

definition page :: "Url \<Rightarrow> Document" where
  "page u = (\<lambda>expr.
     if u = ''http://a/forms'' \<and> expr = ''form''
       then [\<lparr>el_tag = ''form'', el_attrs = [(''id'', ''login'')]\<rparr>,
             \<lparr>el_tag = ''form'', el_attrs = [(''id'', ''search'')]\<rparr>]
     else if u = ''http://a/refresh'' \<and> expr = meta_refresh_selector
       then [\<lparr>el_tag = ''meta'', el_attrs = [(''http-equiv'', ''refresh''), (''content'', ''2'')]\<rparr>]
     else if u = ''http://a/badrefresh'' \<and> expr = meta_refresh_selector
       then [\<lparr>el_tag = ''meta'', el_attrs = [(''http-equiv'', ''refresh''), (''content'', ''2; url=/x'')]\<rparr>]
     else [])"

definition env0 :: "nat Collab" where
  "env0 = \<lparr>
     url_Parse = (\<lambda>s. if s = [] then Inl (External ''empty url'') else Inr s),
     jar_Cookies = (\<lambda>u x. if 0 < x then [''sid=abc''] else []),
     roundTrip = (\<lambda>req hm ts x.
        if list_ex (\<lambda>t. t \<noteq> Stopped) ts then (Inl (External ''reload during exchange''), Suc x)
        else if URL req = ''http://down/'' then (Inl (External ''connection refused''), Suc x)
        else (Inr \<lparr>StatusCode = (if URL req = ''http://a/old'' then 302 else 200),
                    RespBody = URL req\<rparr>, Suc x)),
     redirect_of = (\<lambda>req hm resp.
        if StatusCode resp = 302 then Some (req\<lparr>URL := ''http://a/new''\<rparr>, hm) else None),
     NewDocumentFromResponse = (\<lambda>resp. Inr (page (RespBody resp))),
     ParseDuration = (\<lambda>s. if s = ''2s'' then Inr 2000000000 else Inl (External ''invalid duration'')),
     EncodeToString = (\<lambda>s. s)\<rparr>"

definition recorder0 :: "(Sender, Args, nat World) Handler" where
  "recorder0 = Handler (\<lambda>e sender args (b, x). (None, (b, x + 100)))"

definition d0 :: "nat BrowserDispatcher" where
  "d0 = NewBrowser_dispatcher recorder0"

definition veto0 :: "(Sender, Args, nat World) HandlerFunc" where
  "veto0 = (\<lambda>e sender args (b, x). (Some (External ''vetoed''), (b, x + 1000)))"

definition get0 :: "Url \<Rightarrow> HttpRequest" where
  "get0 u = \<lparr>Method = ''GET'', URL = u, Header = 0, Body = None\<rparr>"

definition resp0 :: "Url \<Rightarrow> HttpResponse" where
  "resp0 u = \<lparr>StatusCode = 200, RespBody = u\<rparr>"

definition d_veto :: "nat BrowserDispatcher" where
  "d_veto = OnFunc d0 PreRequest veto0"

definition d_postfail :: "nat BrowserDispatcher" where
  "d_postfail = OnFunc d0 PostRequest veto0"

text \<open>The browser after loading a page of the small world, as the first navigation leaves it.\<close>

definition loaded_browser :: "Url \<Rightarrow> Browser" where
  "loaded_browser u =
     (NewBrowser ''surf'')\<lparr>state := Some (NewHistoryState (get0 u) (resp0 u) (page u)),
                            history := [None]\<rparr>"

definition refreshing_browser :: Browser where
  "refreshing_browser =
     (loaded_browser ''http://a/refresh'')\<lparr>refresh := Some 0, timers := [Armed 2000000000]\<rparr>"

definition two_pages_browser :: Browser where
  "two_pages_browser =
     (loaded_browser ''http://a/b'')\<lparr>history :=
        [None, Some (NewHistoryState (get0 ''http://a/'') (resp0 ''http://a/'') (page ''http://a/''))]\<rparr>"

section \<open>The dispatcher\<close>

lemma handlers_apply_binding:
  "handlers (apply_binding ed b) e
     = handlers ed e @ (if binding_event b = e then [binding_fun b] else [])"
  by (cases b) (auto simp: On_def OnFunc_def)

lemma handlers_register:
  "handlers (register ed bs) e
     = handlers ed e @ map binding_fun (filter (\<lambda>b. binding_event b = e) bs)"
  unfolding register_def
  by (induction bs arbitrary: ed) (auto simp: handlers_apply_binding)

lemma binding_event_trace [simp]: "binding_event (trace_binding i b) = binding_event b"
  by (cases b) auto

lemma binding_fun_trace [simp]: "binding_fun (trace_binding i b) = traced i (binding_fun b)"
  by (cases b) auto

lemma traced_filter:
  "map binding_fun (filter (\<lambda>b. binding_event b = e) (map (\<lambda>(i, b). trace_binding i b) ibs))
   = map (\<lambda>(i, b). traced i (binding_fun b)) (filter (\<lambda>(i, b). binding_event b = e) ibs)"
  by (induction ibs) (simp_all add: case_prod_beta)

lemma plain_filter:
  "map binding_fun (filter (\<lambda>b. binding_event b = e) (map snd ibs))
   = map (\<lambda>(i, b). binding_fun b) (filter (\<lambda>(i, b). binding_event b = e) ibs)"
  by (induction ibs) (simp_all add: case_prod_beta)

lemma Do_loop_traced:
  "Do_loop (map (\<lambda>(i, b). traced i (binding_fun b)) ibs) e sender args (w, log0) = (r, (w', log)) \<Longrightarrow>
   \<exists>new. log = log0 @ new
     \<and> map call_id new = take (length new) (map fst ibs)
     \<and> (\<forall>c \<in> set new. call_event c = e \<and> call_sender c = sender \<and> call_args c = args)
     \<and> map call_result new = (case r of None \<Rightarrow> replicate (length ibs) None
                                 | Some err \<Rightarrow> replicate (length new - 1) None @ [Some err])
     \<and> Do_loop (map (\<lambda>(i, b). binding_fun b) ibs) e sender args w = (r, w')"
proof (induction ibs arbitrary: w log0)
  case Nil
  then show ?case by auto
next
  case (Cons ib ibs)
  obtain i b where ib: "ib = (i, b)" by (cases ib)
  obtain r1 w1 where h: "binding_fun b e sender args w = (r1, w1)"
    by (cases "binding_fun b e sender args w")
  let ?c = "\<lparr>call_id = i, call_event = e, call_sender = sender, call_args = args, call_result = r1\<rparr>"
  show ?case
  proof (cases r1)
    case None
    with Cons.prems ib h have
      "Do_loop (map (\<lambda>(i, b). traced i (binding_fun b)) ibs) e sender args (w1, log0 @ [?c]) = (r, (w', log))"
      by (simp add: traced_def)
    from Cons.IH[OF this] obtain new where n:
      "log = (log0 @ [?c]) @ new"
      "map call_id new = take (length new) (map fst ibs)"
      "\<forall>c \<in> set new. call_event c = e \<and> call_sender c = sender \<and> call_args c = args"
      "map call_result new = (case r of None \<Rightarrow> replicate (length ibs) None
                                 | Some err \<Rightarrow> replicate (length new - 1) None @ [Some err])"
      "Do_loop (map (\<lambda>(i, b). binding_fun b) ibs) e sender args w1 = (r, w')"
      by blast
    have ne: "r \<noteq> None \<Longrightarrow> new \<noteq> []" using n(4) by (cases r) auto
    have rep: "r \<noteq> None \<Longrightarrow>
        None # replicate (length new - 1) None = replicate (length new) (None :: error option)"
      using ne by (cases new) auto
    show ?thesis
      apply (rule exI[of _ "?c # new"])
      using n rep None ib h
      by (cases r) auto
  next
    case (Some err)
    with Cons.prems ib h have "r = Some err" "w' = w1" "log = log0 @ [?c]"
      by (auto simp: traced_def)
    then show ?thesis using Some ib h
      by (intro exI[of _ "[?c]"]) auto
  qed
qed

text \<open>
  C2. Let handlers be registered with \<^verbatim>\<open>On\<close> and \<^verbatim>\<open>OnFunc\<close>, in any order and for any
  events, on a new dispatcher. A call \<open>Do e sender args\<close> invokes handlers registered for
  \<open>e\<close> only, in registration order and without gaps, each with \<open>e\<close>, \<open>sender\<close> and \<open>args\<close>
  as given. If it returns nil, every handler registered for \<open>e\<close> was invoked and each
  returned nil. If it returns an error, that error is what the last handler invoked
  returned, every handler before it returned nil, and no later handler was invoked.
  Observing the invocations changes neither the result nor the handlers' state.
\<close>

theorem Do_invokes_in_registration_order_until_first_error:
  assumes "Do (register NewDispatcher (traced_bindings bs)) e sender args (w, []) = (r, (w', log))"
  shows "map call_id log = take (length log) (bound_ids e bs)
       \<and> (\<forall>c \<in> set log. call_event c = e \<and> call_sender c = sender \<and> call_args c = args)
       \<and> map call_result log =
           (case r of None \<Rightarrow> replicate (length (bound_ids e bs)) None
            | Some err \<Rightarrow> replicate (length log - 1) None @ [Some err])
       \<and> Do (register NewDispatcher bs) e sender args w = (r, w')"
proof -
  let ?ibs = "filter (\<lambda>(i, b). binding_event b = e) (enumerate 0 bs)"
  have t: "handlers (register NewDispatcher (traced_bindings bs)) e
             = map (\<lambda>(i, b). traced i (binding_fun b)) ?ibs"
    by (simp add: handlers_register traced_bindings_def traced_filter NewDispatcher_def)
  have "map snd (enumerate 0 bs) = bs"
    by (simp add: enumerate_eq_zip)
  then have "handlers (register NewDispatcher bs) e
             = map binding_fun (filter (\<lambda>b. binding_event b = e) (map snd (enumerate 0 bs)))"
    by (simp add: handlers_register NewDispatcher_def)
  then have p: "handlers (register NewDispatcher bs) e = map (\<lambda>(i, b). binding_fun b) ?ibs"
    by (simp only: plain_filter)
  from assms t have
    "Do_loop (map (\<lambda>(i, b). traced i (binding_fun b)) ?ibs) e sender args (w, []) = (r, (w', log))"
    by (simp add: Do_def)
  from Do_loop_traced[OF this] p show ?thesis
    by (cases r) (auto simp: bound_ids_def Do_def)
qed

theorem Do_invokes_in_registration_order_until_first_error_witness:
  "Do (register NewDispatcher (traced_bindings
         [BindOnFunc PreRequest (\<lambda>e s a w. (None, w + 1)),
          BindOn PostRequest (Handler (\<lambda>e s a w. (None, w + 10))),
          BindOn PreRequest (Handler (\<lambda>e s a w. (Some (External ''veto''), w + 100))),
          BindOnFunc PreRequest (\<lambda>e s a w. (None, w + 1000))]))
      PreRequest BrowserRef (UrlArg ''http://a/'') (0 :: nat, [])
     = (Some (External ''veto''),
        (101, [\<lparr>call_id = 0, call_event = PreRequest, call_sender = BrowserRef,
                 call_args = UrlArg ''http://a/'', call_result = None\<rparr>,
               \<lparr>call_id = 2, call_event = PreRequest, call_sender = BrowserRef,
                 call_args = UrlArg ''http://a/'', call_result = Some (External ''veto'')\<rparr>]))
   \<and> bound_ids PreRequest
         [BindOnFunc PreRequest (\<lambda>e s a w. (None, w + 1)),
          BindOn PostRequest (Handler (\<lambda>e (s :: Sender) (a :: Args) (w :: nat). (None, w + 10))),
          BindOn PreRequest (Handler (\<lambda>e s a w. (Some (External ''veto''), w + 100))),
          BindOnFunc PreRequest (\<lambda>e s a w. (None, w + 1000))] = [0, 2, 3]
   \<and> Do (register NewDispatcher
         [BindOnFunc PreRequest (\<lambda>e s a w. (None, w + 1)),
          BindOn PostRequest (Handler (\<lambda>e s a w. (None, w + 10))),
          BindOn PreRequest (Handler (\<lambda>e s a w. (Some (External ''veto''), w + 100))),
          BindOnFunc PreRequest (\<lambda>e s a w. (None, w + 1000))])
      PreRequest BrowserRef (UrlArg ''http://a/'') (0 :: nat) = (Some (External ''veto''), 101)"
proof -
  let ?bs = "[BindOnFunc PreRequest (\<lambda>e s a w. (None, w + 1)),
          BindOn PostRequest (Handler (\<lambda>e s a w. (None, w + 10))),
          BindOn PreRequest (Handler (\<lambda>e s a w. (Some (External ''veto''), w + 100))),
          BindOnFunc PreRequest (\<lambda>e s a w. (None, w + 1000))]
          :: (Sender, Args, nat) Binding list"
  have run: "Do (register NewDispatcher (traced_bindings ?bs))
      PreRequest BrowserRef (UrlArg ''http://a/'') (0 :: nat, [])
     = (Some (External ''veto''),
        (101, [\<lparr>call_id = 0, call_event = PreRequest, call_sender = BrowserRef,
                 call_args = UrlArg ''http://a/'', call_result = None\<rparr>,
               \<lparr>call_id = 2, call_event = PreRequest, call_sender = BrowserRef,
                 call_args = UrlArg ''http://a/'', call_result = Some (External ''veto'')\<rparr>]))"
    by (simp add: Do_def register_def traced_bindings_def NewDispatcher_def On_def OnFunc_def
        traced_def enumerate_eq_zip upt_rec)
  have ids: "bound_ids PreRequest ?bs = [0, 2, 3]"
    by (simp add: bound_ids_def enumerate_eq_zip upt_rec)
  from Do_invokes_in_registration_order_until_first_error[OF run] run ids
  show ?thesis by simp
qed

section \<open>The pipeline\<close>

lemma Do_loop_observers:
  "list_all observer hs \<Longrightarrow> Do_loop hs e sender args (b, x) = (r, (b', x')) \<Longrightarrow> b' = b"
proof (induction hs arbitrary: x)
  case Nil
  then show ?case by simp
next
  case (Cons h hs)
  obtain r1 b1 x1 where h: "h e sender args (b, x) = (r1, (b1, x1))"
    by (metis surj_pair)
  from Cons.prems(1) have "observer h" by simp
  with h have b1: "b1 = b"
    unfolding observer_def by (metis fst_conv snd_conv)
  show ?case
  proof (cases r1)
    case None
    with Cons.prems h b1 have "Do_loop hs e sender args (b, x1) = (r, (b', x'))" by simp
    with Cons.IH Cons.prems(1) show ?thesis by simp
  next
    case (Some err)
    with Cons.prems h b1 show ?thesis by simp
  qed
qed

lemma doPreRequest_observers:
  "observers d \<Longrightarrow> doPreRequest d req (b, x) = (r, (b', x')) \<Longrightarrow> b' = b"
  unfolding observers_def doPreRequest_def Do_def by (blast dest: Do_loop_observers)

lemma doPostRequest_observers:
  "observers d \<Longrightarrow> doPostRequest d resp (b, x) = (r, (b', x')) \<Longrightarrow> b' = b"
  unfolding observers_def doPostRequest_def Do_def by (blast dest: Do_loop_observers)

lemma handleMetaRefresh_loaded:
  assumes "state b = Some s" "Dom s = Some doc"
  shows "handleMetaRefresh env b = Returned b
       \<or> (\<exists>dur. handleMetaRefresh env b
              = Returned (b\<lparr>refresh := Some (length (timers b)), timers := timers b @ [Armed dur]\<rparr>))"
  using assms
  by (auto simp: handleMetaRefresh_def Find_def split: option.splits sum.splits)

lemma httpRequest_veto:
  "doPreRequest d req w = (Some err, w1) \<Longrightarrow>
   httpRequest fuel env d req w = Some (Returned (Some err), w1)"
  by (simp add: httpRequest_def)

lemma httpRequest_transport_error:
  "doPreRequest d req w = (None, (b1, x1)) \<Longrightarrow>
   buildClient_Do fuel env (stopRefresh b1) req x1
     = Some (Inl err, hm2, x2) \<Longrightarrow>
   httpRequest fuel env d req w = Some (Returned (Some err), ((stopRefresh b1)\<lparr>header_maps := hm2\<rparr>, x2))"
  by (simp add: httpRequest_def Let_def)

lemma httpRequest_no_return:
  "doPreRequest d req w = (None, (b1, x1)) \<Longrightarrow>
   buildClient_Do fuel env (stopRefresh b1) req x1 = None \<Longrightarrow>
   httpRequest fuel env d req w = None"
  by (simp add: httpRequest_def Let_def)

lemma httpRequest_parse_error:
  "doPreRequest d req w = (None, (b1, x1)) \<Longrightarrow>
   buildClient_Do fuel env (stopRefresh b1) req x1
     = Some (Inr resp, hm2, x2) \<Longrightarrow>
   NewDocumentFromResponse env resp = Inl err \<Longrightarrow>
   httpRequest fuel env d req w = Some (Returned (Some err), ((stopRefresh b1)\<lparr>header_maps := hm2\<rparr>, x2))"
  by (simp add: httpRequest_def Let_def)

text \<open>The browser \<^verbatim>\<open>httpRequest\<close> has made when it calls \<^verbatim>\<open>handleMetaRefresh\<close>.\<close>

lemma httpRequest_commit:
  "doPreRequest d req w = (None, (b1, x1)) \<Longrightarrow>
   buildClient_Do fuel env (stopRefresh b1) req x1
     = Some (Inr resp, hm2, x2) \<Longrightarrow>
   NewDocumentFromResponse env resp = Inr doc \<Longrightarrow>
   handleMetaRefresh env
     ((stopRefresh b1)\<lparr>header_maps := hm2,
                        history := Push (history (stopRefresh b1)) (state (stopRefresh b1)),
                        state := Some (NewHistoryState req resp doc)\<rparr>) = Returned b5 \<Longrightarrow>
   doPostRequest d resp (b5, x2) = (r, w') \<Longrightarrow>
   httpRequest fuel env d req w = Some (Returned r, w')"
  by (simp add: httpRequest_def Let_def)

lemma handleMetaRefresh_committed:
  "\<exists>b5. handleMetaRefresh env
     (b2\<lparr>history := h, state := Some (NewHistoryState req resp doc)\<rparr>) = Returned b5"
proof -
  let ?b4 = "b2\<lparr>history := h, state := Some (NewHistoryState req resp doc)\<rparr>"
  have "state ?b4 = Some (NewHistoryState req resp doc)"
       "Dom (NewHistoryState req resp doc) = Some doc"
    by (simp_all add: NewHistoryState_def)
  from handleMetaRefresh_loaded[OF this] show ?thesis by blast
qed

text \<open>The ways a call of \<^verbatim>\<open>httpRequest\<close> returns when the handlers are observers.\<close>

lemma httpRequest_cases:
  assumes obs: "observers d"
    and run: "httpRequest fuel env d req (b, x) = Some (r, (b', x'))"
  obtains
    (veto) err where
      "doPreRequest d req (b, x) = (Some err, (b, x'))" "r = Returned (Some err)" "b' = b"
  | (transport) x1 hm2 err where
      "doPreRequest d req (b, x) = (None, (b, x1))"
      "buildClient_Do fuel env (stopRefresh b) req x1
         = Some (Inl err, hm2, x')"
      "r = Returned (Some err)" "b' = (stopRefresh b)\<lparr>header_maps := hm2\<rparr>"
  | (parse) x1 hm2 resp err where
      "doPreRequest d req (b, x) = (None, (b, x1))"
      "buildClient_Do fuel env (stopRefresh b) req x1
         = Some (Inr resp, hm2, x')"
      "NewDocumentFromResponse env resp = Inl err"
      "r = Returned (Some err)" "b' = (stopRefresh b)\<lparr>header_maps := hm2\<rparr>"
  | (commit) x1 x2 hm2 resp doc r' where
      "doPreRequest d req (b, x) = (None, (b, x1))"
      "buildClient_Do fuel env (stopRefresh b) req x1
         = Some (Inr resp, hm2, x2)"
      "NewDocumentFromResponse env resp = Inr doc"
      "handleMetaRefresh env
         ((stopRefresh b)\<lparr>header_maps := hm2,
                           history := Push (history (stopRefresh b)) (state (stopRefresh b)),
                           state := Some (NewHistoryState req resp doc)\<rparr>) = Returned b'"
      "doPostRequest d resp (b', x2) = (r', (b', x'))"
      "r = Returned r'"
proof -
  obtain r0 b1 x1 where pre0: "doPreRequest d req (b, x) = (r0, (b1, x1))"
    by (metis surj_pair)
  with obs have b1: "b1 = b" by (rule doPreRequest_observers)
  note pre = pre0[unfolded b1]
  show thesis
  proof (cases r0)
    case (Some err)
    from httpRequest_veto[OF pre[unfolded Some]] run
    have "r = Returned (Some err)" "b' = b" "x' = x1" by simp_all
    with pre Some show ?thesis by (intro veto) simp_all
  next
    case None
    note pre' = pre[unfolded None]
    let ?b2 = "stopRefresh b"
    show ?thesis
    proof (cases "buildClient_Do fuel env ?b2 req x1")
      case cn: None
      from httpRequest_no_return[OF pre' cn] run show ?thesis by simp
    next
      case (Some p)
      obtain res hm2 x2 where p: "p = (res, hm2, x2)" by (metis prod_cases3)
      note cl = Some[unfolded p]
      show ?thesis
      proof (cases res)
        case (Inl err)
        from httpRequest_transport_error[OF pre' cl[unfolded Inl]] run
        have "r = Returned (Some err)" "b' = ?b2\<lparr>header_maps := hm2\<rparr>" "x' = x2" by simp_all
        with pre' cl Inl show ?thesis by (intro transport) simp_all
      next
        case (Inr resp)
        note cl' = cl[unfolded Inr]
        show ?thesis
        proof (cases "NewDocumentFromResponse env resp")
          case (Inl err)
          from httpRequest_parse_error[OF pre' cl' Inl] run
          have "r = Returned (Some err)" "b' = ?b2\<lparr>header_maps := hm2\<rparr>" "x' = x2" by simp_all
          with pre' cl' Inl show ?thesis by (intro parse) simp_all
        next
          case doc: (Inr doc)
          from handleMetaRefresh_committed obtain b5 where
            h: "handleMetaRefresh env
                  (?b2\<lparr>header_maps := hm2, history := Push (history ?b2) (state ?b2),
                        state := Some (NewHistoryState req resp doc)\<rparr>) = Returned b5"
            by blast
          obtain r' b6 x6 where post0: "doPostRequest d resp (b5, x2) = (r', (b6, x6))"
            by (metis surj_pair)
          with obs have b6: "b6 = b5" by (rule doPostRequest_observers)
          note post = post0[unfolded b6]
          from httpRequest_commit[OF pre' cl' doc h post] run
          have e: "r = Returned r'" "b' = b5" "x' = x6" by simp_all
          show ?thesis
            by (rule commit[OF pre' cl' doc h[folded e(2)] post[folded e(2) e(3)] e(1)])
        qed
      qed
    qed
  qed
qed

lemma stopRefresh_frame:
  "state (stopRefresh b) = state b" "history (stopRefresh b) = history b"
  "headers (stopRefresh b) = headers b" "header_maps (stopRefresh b) = header_maps b"
  "userAgent (stopRefresh b) = userAgent b" "attributes (stopRefresh b) = attributes b"
  "auth (stopRefresh b) = auth b" "refresh (stopRefresh b) = refresh b"
  "length (timers (stopRefresh b)) = length (timers b)"
  by (simp_all add: stopRefresh_def split: option.splits)

lemma handleMetaRefresh_frame:
  assumes "handleMetaRefresh env b = Returned b'"
  shows "state b' = state b" "history b' = history b" "headers b' = headers b"
    "header_maps b' = header_maps b" "userAgent b' = userAgent b" "attributes b' = attributes b"
    "auth b' = auth b"
  using assms
  by (auto simp: handleMetaRefresh_def split: if_splits option.splits sum.splits outcome.splits)

lemma AddCookie_other: "key \<noteq> ''Cookie'' \<Longrightarrow> AddCookie h s key = h key"
  by (simp add: AddCookie_def split: list.splits)

lemma add_cookies_other: "key \<noteq> ''Cookie'' \<Longrightarrow> add_cookies h cookies key = h key"
  unfolding add_cookies_def
  by (induction cookies arbitrary: h) (simp_all add: AddCookie_other)

text \<open>
  The client writes to the store only at the address of the request it was handed, and
  there only under the key \<^verbatim>\<open>Cookie\<close>; a follow-up request does not write to the store.
\<close>

lemma client_loop_store:
  "client_loop fuel env check ts hm own req x = Some (res, hm', x') \<Longrightarrow>
   (own \<noteq> None \<longrightarrow> hm' = hm)
   \<and> (\<forall>a key. key \<noteq> ''Cookie'' \<or> a \<noteq> Header req \<longrightarrow> hm' a key = hm a key)"
proof (induction fuel env check ts hm own req x rule: client_loop.induct)
  case (1 env CheckRedirect ts hm own req x)
  then show ?case by simp
next
  case (2 fuel env CheckRedirect ts hm own req x)
  let ?hdr = "add_cookies (case own of None \<Rightarrow> hm (Header req) | Some m \<Rightarrow> m)
                (jar_Cookies env (URL req) x)"
  let ?hm = "case own of None \<Rightarrow> hm(Header req := ?hdr) | Some m \<Rightarrow> hm"
  have first: "(own \<noteq> None \<longrightarrow> ?hm = hm)
     \<and> (\<forall>a key. key \<noteq> ''Cookie'' \<or> a \<noteq> Header req \<longrightarrow> ?hm a key = hm a key)"
    by (cases own) (auto simp: add_cookies_other)
  obtain r1 x1 where rt: "roundTrip env req ?hdr ts x = (r1, x1)"
    by (cases "roundTrip env req ?hdr ts x")
  show ?case
  proof (cases r1)
    case (Inl err)
    from "2.prems" have "hm' = ?hm" by (simp add: Let_def rt Inl)
    with first show ?thesis by simp
  next
    case (Inr resp)
    show ?thesis
    proof (cases "redirect_of env req ?hdr resp")
      case None
      from "2.prems" have "hm' = ?hm" by (simp add: Let_def rt Inr None)
      with first show ?thesis by simp
    next
      case (Some p)
      obtain req' m' where p: "p = (req', m')" by (cases p)
      show ?thesis
      proof (cases "CheckRedirect req'")
        case e: (Some err)
        from "2.prems" have "hm' = ?hm" by (simp add: Let_def rt Inr Some p e)
        with first show ?thesis by simp
      next
        case None
        from "2.prems" have
          "client_loop fuel env CheckRedirect ts ?hm (Some m') req' x1 = Some (res, hm', x')"
          by (simp add: Let_def rt Inr Some p None)
        from "2.IH"[OF refl refl rt[symmetric] Inr Some p[symmetric] None this]
        have "hm' = ?hm" by simp
        with first show ?thesis by simp
      qed
    qed
  qed
qed

lemma buildClient_Do_store:
  assumes "buildClient_Do fuel env b req x = Some (res, hm', x')"
  shows "key \<noteq> ''Cookie'' \<Longrightarrow> hm' a key = header_maps b a key"
    and "a \<noteq> Header req \<Longrightarrow> hm' a = header_maps b a"
  using client_loop_store[OF assms[unfolded buildClient_Do_def client_Do_def]]
  by auto

text \<open>
  What \<^verbatim>\<open>httpRequest\<close> never touches: the user agent, the attributes, the credentials,
  the reference to the headers jar, and every header in the store but \<^verbatim>\<open>Cookie\<close>.
\<close>

lemma httpRequest_frame:
  assumes "observers d" "httpRequest fuel env d req (b, x) = Some (r, (b', x'))"
  shows "headers b' = headers b" "userAgent b' = userAgent b"
    "attributes b' = attributes b" "auth b' = auth b" "r \<noteq> Panicked"
    "key \<noteq> ''Cookie'' \<Longrightarrow> header_maps b' a key = header_maps b a key"
  using assms
  by (cases rule: httpRequest_cases;
      simp add: handleMetaRefresh_frame stopRefresh_frame buildClient_Do_store)+

lemma httpRequest_commits:
  assumes obs: "observers d" and c: "commits fuel env d req (b, x)"
  shows "\<exists>r b' x' resp doc. httpRequest fuel env d req (b, x) = Some (Returned r, (b', x'))
           \<and> history b' = Push (history b) (state b)
           \<and> state b' = Some (NewHistoryState req resp doc)"
proof -
  obtain r0 b1 x1 where pre0: "doPreRequest d req (b, x) = (r0, (b1, x1))"
    by (metis surj_pair)
  with obs have b1: "b1 = b" by (rule doPreRequest_observers)
  let ?b2 = "stopRefresh b"
  from c pre0 have r0: "r0 = None"
    by (cases r0) (simp_all add: commits_def)
  note pre = pre0[unfolded b1 r0]
  from c pre obtain p where
    cl0: "buildClient_Do fuel env ?b2 req x1 = Some p"
    by (cases "buildClient_Do fuel env ?b2 req x1")
       (simp_all add: commits_def)
  obtain res hm2 x2 where p: "p = (res, hm2, x2)" by (metis prod_cases3)
  from c pre cl0 p obtain resp where res: "res = Inr resp"
    by (cases res) (simp_all add: commits_def)
  note cl = cl0[unfolded p res]
  from c pre cl obtain doc where doc: "NewDocumentFromResponse env resp = Inr doc"
    by (cases "NewDocumentFromResponse env resp") (simp_all add: commits_def)
  from handleMetaRefresh_committed obtain b5 where
    h: "handleMetaRefresh env
          (?b2\<lparr>header_maps := hm2, history := Push (history ?b2) (state ?b2),
                state := Some (NewHistoryState req resp doc)\<rparr>) = Returned b5"
    by blast
  obtain r' w' where post: "doPostRequest d resp (b5, x2) = (r', w')"
    by (cases "doPostRequest d resp (b5, x2)")
  obtain b6 x6 where w': "w' = (b6, x6)" by (cases w')
  from obs post[unfolded w'] have b6: "b6 = b5" by (rule doPostRequest_observers)
  have run: "httpRequest fuel env d req (b, x) = Some (Returned r', (b5, x6))"
    using httpRequest_commit[OF pre cl doc h post] w' b6 by simp
  from handleMetaRefresh_frame(1,2)[OF h] have "state b5 = Some (NewHistoryState req resp doc)"
    "history b5 = Push (history b) (state b)" by (simp_all add: stopRefresh_frame)
  with run show ?thesis by blast
qed

lemma observers_d0: "observers d0"
  by (simp add: observers_def d0_def NewBrowser_dispatcher_def On_def NewDispatcher_def
      observer_def recorder0_def)

lemmas run_defs =
  commits_def httpRequest_def doPreRequest_def doPostRequest_def Do_def d0_def
  NewBrowser_dispatcher_def On_def OnFunc_def NewDispatcher_def recorder0_def veto0_def env0_def
  get0_def resp0_def NewBrowser_def NewMemoryHistory_def stopRefresh_def shouldRedirect_def
  handleMetaRefresh_def Find_def NewHistoryState_def page_def meta_refresh_selector_def
  Attr_def Push_def Pop_def Len_def Let_def buildClient_Do_def client_Do_def add_cookies_def
  AddCookie_def

text \<open>
  C1. Take any sequence of navigations each of which commits (\<open>PreRequest\<close> passes, the
  transport answers, the document parses), with handlers that are observers. Every
  navigation pushes the state that was current immediately before it and then makes the
  state built from its own request current: the history grows by the states that were
  current before each navigation, in order, the last new state is current and not in the
  history, and the history is longer by the number of navigations. From a new browser,
  whose history is empty, the length after \<open>n\<close> navigations is \<open>n\<close>; the first entry is
  the nil state the browser started with.
\<close>

theorem navigations_push_previous_state:
  assumes obs: "observers d"
    and run: "navigations fuel env d reqs (b, x) = Some (b', x')"
  shows "\<exists>news. list_all2 state_of_request reqs news
       \<and> history b' = history b @ butlast (state b # map Some news)
       \<and> state b' = last (state b # map Some news)
       \<and> Len (history b') = Len (history b) + length reqs"
  using run
proof (induction reqs arbitrary: b x)
  case Nil
  then show ?case by (simp add: Len_def)
next
  case (Cons req reqs)
  from Cons.prems have c: "commits fuel env d req (b, x)"
    by (simp split: if_splits)
  from httpRequest_commits[OF obs c] obtain r b1 x1 resp doc where
    step: "httpRequest fuel env d req (b, x) = Some (Returned r, (b1, x1))"
    and h1: "history b1 = Push (history b) (state b)"
    and s1: "state b1 = Some (NewHistoryState req resp doc)"
    by blast
  from Cons.prems c step have "navigations fuel env d reqs (b1, x1) = Some (b', x')"
    by simp
  from Cons.IH[OF this] obtain news where n:
    "list_all2 state_of_request reqs news"
    "history b' = history b1 @ butlast (state b1 # map Some news)"
    "state b' = last (state b1 # map Some news)"
    "Len (history b') = Len (history b1) + length reqs"
    by blast
  let ?n = "NewHistoryState req resp doc"
  have "state_of_request req ?n"
    by (simp add: state_of_request_def NewHistoryState_def)
  with n h1 s1 have
    "list_all2 state_of_request (req # reqs) (?n # news)"
    "history b' = history b @ butlast (state b # map Some (?n # news))"
    "state b' = last (state b # map Some (?n # news))"
    "Len (history b') = Len (history b) + length (req # reqs)"
    by (simp_all add: Push_def Len_def)
  then show ?case by blast
qed

theorem navigations_push_previous_state_witness:
  "observers d0
   \<and> (\<exists>b' x'. navigations 1 env0 d0 [get0 ''http://a/'', get0 ''http://a/b''] (NewBrowser ''surf'', 0)
                  = Some (b', x')
        \<and> history b' = [None, Some (NewHistoryState (get0 ''http://a/'') (resp0 ''http://a/'') (page ''http://a/''))]
        \<and> state b' = Some (NewHistoryState (get0 ''http://a/b'') (resp0 ''http://a/b'') (page ''http://a/b''))
        \<and> Len (history b') = 2)"
proof -
  have "\<exists>w. navigations 1 env0 d0 [get0 ''http://a/'', get0 ''http://a/b''] (NewBrowser ''surf'', 0)
               = Some w
            \<and> history (fst w) = [None, Some (NewHistoryState (get0 ''http://a/'') (resp0 ''http://a/'') (page ''http://a/''))]
            \<and> state (fst w) = Some (NewHistoryState (get0 ''http://a/b'') (resp0 ''http://a/b'') (page ''http://a/b''))"
    by (simp add: run_defs)
  then obtain b' x' where
    run: "navigations 1 env0 d0 [get0 ''http://a/'', get0 ''http://a/b''] (NewBrowser ''surf'', 0)
            = Some (b', x')"
    and h: "history b' = [None, Some (NewHistoryState (get0 ''http://a/'') (resp0 ''http://a/'') (page ''http://a/''))]"
    and s: "state b' = Some (NewHistoryState (get0 ''http://a/b'') (resp0 ''http://a/b'') (page ''http://a/b''))"
    by auto
  from navigations_push_previous_state[OF observers_d0 run]
  have "Len (history b') = Len (history (NewBrowser ''surf'')) + 2" by auto
  then have "Len (history b') = 2"
    by (simp add: NewBrowser_def NewMemoryHistory_def Len_def)
  with observers_d0 run h s show ?thesis by blast
qed

lemma observers_d_veto: "observers d_veto"
  by (simp add: observers_def d_veto_def d0_def NewBrowser_dispatcher_def On_def OnFunc_def
      NewDispatcher_def observer_def recorder0_def veto0_def)

lemma observers_d_postfail: "observers d_postfail"
  by (simp add: observers_def d_postfail_def d0_def NewBrowser_dispatcher_def On_def OnFunc_def
      NewDispatcher_def observer_def recorder0_def veto0_def)

text \<open>
  C3. If the \<open>PreRequest\<close> dispatch of a navigation returns an error, \<^verbatim>\<open>httpRequest\<close>
  returns that error and leaves the world exactly as the dispatch left it. This holds
  for every transport and with no fuel for any exchange at all, so the transport is not
  invoked; and when the handlers are observers, the current state and the history are
  those from before the call.
\<close>

theorem PreRequest_error_aborts_before_transport:
  assumes "doPreRequest d req (b, x) = (Some err, (b1, x1))"
  shows "httpRequest fuel env d req (b, x) = Some (Returned (Some err), (b1, x1))
       \<and> (observers d \<longrightarrow> state b1 = state b \<and> history b1 = history b)"
  using assms httpRequest_veto[OF assms] doPreRequest_observers[of d req b x "Some err" b1 x1]
  by simp

theorem PreRequest_error_aborts_before_transport_witness:
  "doPreRequest d_veto (get0 ''http://a/'') (NewBrowser ''surf'', 0)
     = (Some (External ''vetoed''), (NewBrowser ''surf'', 1000))
   \<and> observers d_veto
   \<and> httpRequest 0 env0 d_veto (get0 ''http://a/'') (NewBrowser ''surf'', 0)
     = Some (Returned (Some (External ''vetoed'')), (NewBrowser ''surf'', 1000))"
proof -
  have pre: "doPreRequest d_veto (get0 ''http://a/'') (NewBrowser ''surf'', 0)
     = (Some (External ''vetoed''), (NewBrowser ''surf'', 1000))"
    by (simp add: doPreRequest_def Do_def d_veto_def d0_def NewBrowser_dispatcher_def On_def
        OnFunc_def NewDispatcher_def veto0_def)
  from PreRequest_error_aborts_before_transport[OF pre, of 0 env0] pre observers_d_veto
  show ?thesis by simp
qed

text \<open>
  C4. Let a navigation pass \<open>PreRequest\<close>, get a response from the transport and parse
  the document. Then the \<open>PostRequest\<close> handlers are called on a browser in which the new
  state is current and the previous state has been pushed; if their dispatch returns an
  error, \<^verbatim>\<open>httpRequest\<close> returns that error together with the world the handlers left,
  undoing nothing: with handlers that are observers, the new state is still current and
  the history still holds the pushed entry.
\<close>

theorem PostRequest_error_keeps_commit:
  assumes pre: "doPreRequest d req w = (None, (b1, x1))"
    and tr: "buildClient_Do fuel env (stopRefresh b1) req x1 = Some (Inr resp, hm2, x2)"
    and doc: "NewDocumentFromResponse env resp = Inr doc"
  shows "\<exists>b5. state b5 = Some (NewHistoryState req resp doc)
            \<and> history b5 = Push (history b1) (state b1)
            \<and> (\<forall>err b' x'. doPostRequest d resp (b5, x2) = (Some err, (b', x')) \<longrightarrow>
                  httpRequest fuel env d req w = Some (Returned (Some err), (b', x'))
                  \<and> (observers d \<longrightarrow> state b' = Some (NewHistoryState req resp doc)
                                      \<and> history b' = Push (history b1) (state b1)))"
proof -
  let ?b2 = "stopRefresh b1"
  from handleMetaRefresh_committed obtain b5 where
    h: "handleMetaRefresh env
          (?b2\<lparr>header_maps := hm2, history := Push (history ?b2) (state ?b2),
                state := Some (NewHistoryState req resp doc)\<rparr>) = Returned b5"
    by blast
  from handleMetaRefresh_frame(1,2)[OF h] have
    s5: "state b5 = Some (NewHistoryState req resp doc)"
    and h5: "history b5 = Push (history b1) (state b1)"
    by (simp_all add: stopRefresh_frame)
  have "httpRequest fuel env d req w = Some (Returned (Some err), (b', x'))
        \<and> (observers d \<longrightarrow> state b' = Some (NewHistoryState req resp doc)
                            \<and> history b' = Push (history b1) (state b1))"
    if post: "doPostRequest d resp (b5, x2) = (Some err, (b', x'))" for err b' x'
    using httpRequest_commit[OF pre tr doc h post] doPostRequest_observers[OF _ post] s5 h5
    by simp
  with s5 h5 show ?thesis by blast
qed

theorem PostRequest_error_keeps_commit_witness:
  "observers d_postfail
   \<and> (\<exists>b'. httpRequest 1 env0 d_postfail (get0 ''http://a/'') (NewBrowser ''surf'', 0)
              = Some (Returned (Some (External ''vetoed'')), (b', 1101))
          \<and> state b' = Some (NewHistoryState (get0 ''http://a/'') (resp0 ''http://a/'') (page ''http://a/''))
          \<and> history b' = [None])"
proof -
  let ?b = "NewBrowser ''surf''"
  let ?req = "get0 ''http://a/''"
  have pre: "doPreRequest d_postfail ?req (?b, 0) = (None, (?b, 0))"
    by (simp add: doPreRequest_def Do_def d_postfail_def d0_def NewBrowser_dispatcher_def On_def
        OnFunc_def NewDispatcher_def)
  have "\<exists>hm2. buildClient_Do 1 env0 (stopRefresh ?b) ?req 0
              = Some (Inr (resp0 ''http://a/''), hm2, 1)"
    by (simp add: buildClient_Do_def client_Do_def add_cookies_def Let_def env0_def get0_def
        resp0_def stopRefresh_def NewBrowser_def)
  then obtain hm2 where
    tr: "buildClient_Do 1 env0 (stopRefresh ?b) ?req 0 = Some (Inr (resp0 ''http://a/''), hm2, 1)"
    by blast
  have doc: "NewDocumentFromResponse env0 (resp0 ''http://a/'') = Inr (page ''http://a/'')"
    by (simp add: env0_def resp0_def)
  from PostRequest_error_keeps_commit[OF pre tr doc] obtain b5 where
    s5: "state b5 = Some (NewHistoryState ?req (resp0 ''http://a/'') (page ''http://a/''))"
    and h5: "history b5 = Push (history ?b) (state ?b)"
    and imp: "\<And>err b' x'. doPostRequest d_postfail (resp0 ''http://a/'') (b5, 1) = (Some err, (b', x')) \<Longrightarrow>
                httpRequest 1 env0 d_postfail ?req (?b, 0) = Some (Returned (Some err), (b', x'))"
    by blast
  have post: "doPostRequest d_postfail (resp0 ''http://a/'') (b5, 1)
                = (Some (External ''vetoed''), (b5, 1101))"
    by (simp add: doPostRequest_def Do_def d_postfail_def d0_def NewBrowser_dispatcher_def On_def
        OnFunc_def NewDispatcher_def recorder0_def veto0_def)
  from imp[OF post] s5 h5 observers_d_postfail show ?thesis
    by (auto simp: Push_def NewBrowser_def NewMemoryHistory_def)
qed

text \<open>
  C7. Let \<^verbatim>\<open>FollowRedirects\<close> be false and let a navigation pass \<open>PreRequest\<close> with
  handlers that are observers. If the response to the request is a redirect, the client
  asks \<^verbatim>\<open>shouldRedirect\<close> before following it, the navigation returns the
  redirects-disabled error for the redirect's target (inside the client's
  \<^verbatim>\<open>*url.Error\<close>), after that one exchange, and the current state and the history are
  those from before the call. The client asks at every hop; with the attribute off no
  second hop is ever reached.
\<close>

theorem redirect_refused_when_FollowRedirects_off:
  assumes obs: "observers d"
    and off: "\<not> attributes b FollowRedirects"
    and pre: "doPreRequest d req (b, x) = (None, (b1, x1))"
    and rt: "roundTrip env req (sent_headers env b req x1) (timers (stopRefresh b)) x1
               = (Inr resp, x2)"
    and rd: "redirect_of env req (sent_headers env b req x1) resp = Some (req', m')"
  shows "\<exists>b'. httpRequest (Suc fuel) env d req (b, x)
               = Some (Returned (Some (UrlError (Location (URL req')))), (b', x2))
            \<and> state b' = state b \<and> history b' = history b"
proof -
  from obs pre have b1: "b1 = b" by (rule doPreRequest_observers)
  have "buildClient_Do (Suc fuel) env (stopRefresh b) req x1
          = Some (Inl (UrlError (Location (URL req'))),
                  (header_maps b)(Header req := sent_headers env b req x1), x2)"
    using off rt rd
    by (simp add: buildClient_Do_def client_Do_def sent_headers_def Let_def shouldRedirect_def
        stopRefresh_frame)
  from httpRequest_transport_error[OF pre[unfolded b1] this]
  show ?thesis by (auto simp: stopRefresh_frame)
qed

theorem redirect_refused_when_FollowRedirects_off_witness:
  "observers d0
   \<and> \<not> attributes (SetAttribute FollowRedirects False (NewBrowser ''surf'')) FollowRedirects
   \<and> (\<exists>b'. httpRequest 1 env0 d0 (get0 ''http://a/old'')
               (SetAttribute FollowRedirects False (NewBrowser ''surf''), 0)
              = Some (Returned (Some (UrlError (Location ''http://a/new''))), (b', 1))
          \<and> state b' = None \<and> history b' = [])"
proof -
  let ?b = "SetAttribute FollowRedirects False (NewBrowser ''surf'')"
  let ?req = "get0 ''http://a/old''"
  have off: "\<not> attributes ?b FollowRedirects"
    by (simp add: SetAttribute_def)
  have pre: "doPreRequest d0 ?req (?b, 0) = (None, (?b, 0))"
    by (simp add: doPreRequest_def Do_def d0_def NewBrowser_dispatcher_def On_def NewDispatcher_def)
  have rt: "roundTrip env0 ?req (sent_headers env0 ?b ?req 0) (timers (stopRefresh ?b)) 0
              = (Inr \<lparr>StatusCode = 302, RespBody = ''http://a/old''\<rparr>, 1)"
    by (simp add: env0_def get0_def stopRefresh_def SetAttribute_def NewBrowser_def)
  have rd: "redirect_of env0 ?req (sent_headers env0 ?b ?req 0)
              \<lparr>StatusCode = 302, RespBody = ''http://a/old''\<rparr>
              = Some (?req\<lparr>URL := ''http://a/new''\<rparr>, sent_headers env0 ?b ?req 0)"
    by (simp add: env0_def)
  from redirect_refused_when_FollowRedirects_off[OF observers_d0 off pre rt rd, of 0]
    observers_d0 off
  show ?thesis
    by (auto simp: SetAttribute_def NewBrowser_def NewMemoryHistory_def get0_def)
qed

section \<open>History navigation, reload and forms\<close>

lemma Back_pops:
  assumes "1 < length (history b)" "last (history b) = Some s" "Request s = Some r"
  shows "Back (b, x) = (Returned True, (b\<lparr>history := butlast (history b), state := Some s\<rparr>, x))"
  using assms by (simp add: Back_def Len_def Pop_def)

lemma Back_floor:
  "\<not> 1 < length (history b) \<Longrightarrow> Back (b, x) = (Returned False, (b, x))"
  by (simp add: Back_def Len_def)

lemma loaded_last:
  assumes "list_all loaded (tl h)" "1 < length h"
  obtains s r where "last h = Some s" "Request s = Some r"
proof -
  from assms(2) have ne: "tl h \<noteq> []" by (cases h) auto
  then have "last (tl h) = last h" by (simp add: last_tl)
  moreover from ne have "last (tl h) \<in> set (tl h)" by (rule last_in_set)
  ultimately have "loaded (last h)" using assms(1) by (simp add: list_all_iff)
  then show thesis
    using that by (auto simp: loaded_def split: option.splits)
qed

lemma Back_step:
  assumes "list_all loaded (tl (history b))"
  shows "Back (b, x) =
           (if 1 < Len (history b)
            then (Returned True, (b\<lparr>history := butlast (history b), state := last (history b)\<rparr>, x))
            else (Returned False, (b, x)))"
proof (cases "1 < length (history b)")
  case True
  from loaded_last[OF assms True] obtain s r where
    "last (history b) = Some s" "Request s = Some r" by blast
  with True Back_pops[OF True this] show ?thesis by (simp add: Len_def)
next
  case False
  with Back_floor[OF False] show ?thesis by (simp add: Len_def)
qed

lemma loaded_butlast:
  "list_all loaded (tl h) \<Longrightarrow> list_all loaded (tl (butlast h))"
  by (cases h) (auto simp: list_all_iff dest: in_set_butlastD)

lemma Back_times_floor:
  assumes "list_all loaded (tl (history b))"
  shows "snd (Back_times n (b, x)) = x
       \<and> (1 \<le> Len (history b) \<longrightarrow> 1 \<le> Len (history (fst (Back_times n (b, x)))))
       \<and> Len (history (fst (Back_times n (b, x)))) \<le> Len (history b)"
  using assms
proof (induction n arbitrary: b)
  case 0
  then show ?case by simp
next
  case (Suc n)
  show ?case
  proof (cases "1 < Len (history b)")
    case True
    let ?b' = "b\<lparr>history := butlast (history b), state := last (history b)\<rparr>"
    have wf': "list_all loaded (tl (history ?b'))"
      using Suc.prems by (simp add: loaded_butlast)
    from True have "1 \<le> Len (history ?b')" "Len (history ?b') \<le> Len (history b)"
      by (simp_all add: Len_def)
    with Suc.IH[OF wf'] True Back_step[OF Suc.prems, of x] show ?thesis
      by auto
  next
    case False
    with Suc.IH[OF Suc.prems] Back_step[OF Suc.prems, of x] show ?thesis
      by simp
  qed
qed

text \<open>
  C5. Take a browser whose history entries above the first are loaded pages (as in
  every browser that navigation has built). \<^verbatim>\<open>Back\<close> returns true, removes the most
  recent entry and makes it the current state if the history has more than one entry,
  and only then; otherwise it returns false and changes nothing. It leaves everything
  outside the browser, the transport included, untouched, so no exchange is made. Any
  number of calls in a row keeps a history that had an entry at one entry or more.
\<close>

theorem Back_pops_iff_more_than_one_entry:
  assumes "list_all loaded (tl (history b))"
  shows "Back (b, x) =
           (if 1 < Len (history b)
            then (Returned True, (b\<lparr>history := butlast (history b), state := last (history b)\<rparr>, x))
            else (Returned False, (b, x)))
       \<and> snd (Back_times n (b, x)) = x
       \<and> (1 \<le> Len (history b) \<longrightarrow> 1 \<le> Len (history (fst (Back_times n (b, x)))))"
proof -
  note step = Back_step[OF assms, of x]
  from Back_times_floor[OF assms, of n x] have
    t1: "snd (Back_times n (b, x)) = x"
    and t2: "1 \<le> Len (history b) \<longrightarrow> 1 \<le> Len (history (fst (Back_times n (b, x))))"
    by blast+
  show ?thesis by (rule conjI[OF step conjI[OF t1 t2]])
qed

text \<open>
  C6, at the browser \<^verbatim>\<open>NewBrowser\<close> makes: \<^verbatim>\<open>bow.state\<close> is nil, and \<^verbatim>\<open>Reload\<close> panics on
  reading \<^verbatim>\<open>bow.state.Request\<close> instead of returning the page-not-loaded error.
\<close>

theorem Reload_on_new_browser_panics:
  "Reload fuel env d (NewBrowser ua, x) = Some (Panicked, (NewBrowser ua, x))"
  by (simp add: Reload_def NewBrowser_def)

lemma Reload_without_request:
  "state b = Some s \<Longrightarrow> Request s = None \<Longrightarrow>
   Reload fuel env d (b, x)
     = Some (Returned (Some (PageNotLoaded ''Cannot reload, the previous request failed.'')), (b, x))"
  by (simp add: Reload_def)

lemma Reload_reissues_request:
  "state b = Some s \<Longrightarrow> Request s = Some r \<Longrightarrow>
   Reload fuel env d (b, x) = httpRequest fuel env d r (b, x)"
  by (simp add: Reload_def)

lemma foldl_append_forms:
  "foldl (\<lambda>forms s. forms @ [f s]) acc sel = acc @ map f sel"
  by (induction sel arbitrary: acc) simp_all

text \<open>
  C9. On a loaded page whose document has \<open>n\<close> elements matching \<^verbatim>\<open>form\<close>, \<^verbatim>\<open>Forms\<close> returns
  nil if \<open>n = 0\<close>, and otherwise a slice of length \<open>2n\<close>: \<open>n\<close> nil entries, then the \<open>n\<close>
  forms made from the matched elements, in document order.
\<close>

theorem Forms_nil_entries_then_forms:
  assumes "Find b ''form'' = Returned sel"
  shows "(sel = [] \<longrightarrow> Forms newForm b = Returned None)
       \<and> (sel \<noteq> [] \<longrightarrow>
            (\<exists>forms. Forms newForm b = Returned (Some forms)
               \<and> length forms = 2 * length sel
               \<and> take (length sel) forms = replicate (length sel) None
               \<and> drop (length sel) forms = map (\<lambda>s. Some (newForm s)) sel))"
  using assms by (simp add: Forms_def Let_def foldl_append_forms)
theorem Back_pops_iff_more_than_one_entry_witness:
  "list_all loaded (tl (history two_pages_browser))
   \<and> Back (two_pages_browser, 7 :: nat)
       = (Returned True, (loaded_browser ''http://a/'', 7))
   \<and> Back (loaded_browser ''http://a/'', 7 :: nat) = (Returned False, (loaded_browser ''http://a/'', 7))
   \<and> 1 \<le> Len (history two_pages_browser)
   \<and> 1 \<le> Len (history (fst (Back_times 3 (two_pages_browser, 7 :: nat))))
   \<and> snd (Back_times 3 (two_pages_browser, 7 :: nat)) = 7"
proof -
  have wf2: "list_all loaded (tl (history two_pages_browser))"
    by (simp add: two_pages_browser_def loaded_browser_def loaded_def NewHistoryState_def)
  have wf1: "list_all loaded (tl (history (loaded_browser ''http://a/'')))"
    by (simp add: loaded_browser_def)
  have l: "1 \<le> Len (history two_pages_browser)"
    by (simp add: two_pages_browser_def Len_def)
  from Back_pops_iff_more_than_one_entry[OF wf2, of "7 :: nat" 3]
       Back_pops_iff_more_than_one_entry[OF wf1, of "7 :: nat" 0] wf2 l
  show ?thesis
    by (simp add: two_pages_browser_def loaded_browser_def Len_def NewBrowser_def
        NewMemoryHistory_def)
qed

theorem Forms_nil_entries_then_forms_witness:
  "Find (loaded_browser ''http://a/forms'') ''form''
     = Returned [\<lparr>el_tag = ''form'', el_attrs = [(''id'', ''login'')]\<rparr>,
                 \<lparr>el_tag = ''form'', el_attrs = [(''id'', ''search'')]\<rparr>]
   \<and> Forms el_attrs (loaded_browser ''http://a/forms'')
     = Returned (Some [None, None, Some [(''id'', ''login'')], Some [(''id'', ''search'')]])
   \<and> Find (loaded_browser ''http://a/'') ''form'' = Returned []
   \<and> Forms el_attrs (loaded_browser ''http://a/'') = Returned None"
proof -
  let ?sel = "[\<lparr>el_tag = ''form'', el_attrs = [(''id'', ''login'')]\<rparr>,
               \<lparr>el_tag = ''form'', el_attrs = [(''id'', ''search'')]\<rparr>]"
  have f: "Find (loaded_browser ''http://a/forms'') ''form'' = Returned ?sel"
    by (simp add: Find_def loaded_browser_def NewHistoryState_def page_def)
  have e: "Find (loaded_browser ''http://a/'') ''form'' = Returned []"
    by (simp add: Find_def loaded_browser_def NewHistoryState_def page_def)
  from Forms_nil_entries_then_forms[OF f, of el_attrs] obtain forms where
    r: "Forms el_attrs (loaded_browser ''http://a/forms'') = Returned (Some forms)"
    and t: "take (length ?sel) forms = replicate (length ?sel) None"
    and d: "drop (length ?sel) forms = map (\<lambda>s. Some (el_attrs s)) ?sel"
    by auto
  have "forms = take (length ?sel) forms @ drop (length ?sel) forms"
    by (simp only: append_take_drop_id)
  also have "\<dots> = [None, None, Some [(''id'', ''login'')], Some [(''id'', ''search'')]]"
    unfolding t d by (simp add: numeral_2_eq_2)
  finally have "forms = [None, None, Some [(''id'', ''login'')], Some [(''id'', ''search'')]]" .
  with r f e Forms_nil_entries_then_forms[OF e, of el_attrs] show ?thesis by simp
qed

section \<open>Browsers built by navigation are well formed\<close>

lemma well_formed_NewBrowser: "well_formed (NewBrowser ua)"
  by (simp add: well_formed_def NewBrowser_def NewMemoryHistory_def)

lemma well_formed_history: "well_formed b \<Longrightarrow> list_all loaded (tl (history b))"
  by (simp add: well_formed_def split: if_splits)

lemma well_formed_commit:
  assumes "well_formed b" "history b' = Push (history b) (state b)"
    "state b' = Some (NewHistoryState req resp doc)"
  shows "well_formed b'"
  using assms
  by (cases "history b") (simp_all add: well_formed_def Push_def loaded_def NewHistoryState_def)

lemma well_formed_httpRequest:
  assumes obs: "observers d" and wf: "well_formed b"
    and run: "httpRequest fuel env d req (b, x) = Some (r, (b', x'))"
  shows "well_formed b'"
  using obs run
proof (cases rule: httpRequest_cases)
  case (veto err)
  with wf show ?thesis by simp
next
  case (transport x1 hm2 err)
  with wf show ?thesis by (simp add: well_formed_def stopRefresh_frame)
next
  case (parse x1 hm2 resp err)
  with wf show ?thesis by (simp add: well_formed_def stopRefresh_frame)
next
  case (commit x1 x2 hm2 resp doc r')
  from handleMetaRefresh_frame(1,2)[OF commit(4)] have
    "history b' = Push (history b) (state b)" "state b' = Some (NewHistoryState req resp doc)"
    by (simp_all add: stopRefresh_frame)
  with wf show ?thesis by (rule well_formed_commit)
qed

lemma well_formed_Back:
  assumes wf: "well_formed b" and run: "Back (b, x) = (r, (b', x'))"
  shows "well_formed b' \<and> r \<noteq> Panicked"
proof (cases "1 < length (history b)")
  case True
  from loaded_last[OF well_formed_history[OF wf] True] obtain s q where
    l: "last (history b) = Some s" "Request s = Some q" by blast
  from Back_pops[OF True l, of x] run have
    b': "b' = b\<lparr>history := butlast (history b), state := Some s\<rparr>" and r: "r = Returned True"
    by simp_all
  from True have "butlast (history b) \<noteq> []"
    by (cases "history b") (auto split: if_splits)
  with wf l b' r loaded_butlast[OF well_formed_history[OF wf]] show ?thesis
    by (simp add: well_formed_def loaded_def)
next
  case False
  from Back_floor[OF False, of x] run wf show ?thesis by simp
qed

text \<open>
  On a well-formed browser \<^verbatim>\<open>Reload\<close> either panics (nothing was ever loaded) or issues
  the current request again; it has no way to its page-not-loaded error.
\<close>

lemma Reload_well_formed:
  assumes "well_formed b"
  shows "(state b = None \<and> Reload fuel env d (b, x) = Some (Panicked, (b, x)))
       \<or> (\<exists>s r. state b = Some s \<and> Request s = Some r
              \<and> Reload fuel env d (b, x) = httpRequest fuel env d r (b, x))"
  using assms
  by (cases "state b")
     (auto simp: well_formed_def loaded_def Reload_def split: if_splits option.splits)

section \<open>The refresh timer\<close>

lemma one_timer_iff:
  "one_timer b \<longleftrightarrow> (\<forall>i < length (timers b). timers b ! i \<noteq> Stopped \<longrightarrow> refresh b = Some i)"
  by (auto simp: one_timer_def pending_timers_def list_all_iff)

lemma stopRefresh_stops_all:
  assumes "one_timer b" "i < length (timers b)"
  shows "timers (stopRefresh b) ! i = Stopped"
proof (cases "refresh b")
  case None
  with assms show ?thesis
    by (auto simp: one_timer_iff stopRefresh_def)
next
  case (Some t)
  with assms show ?thesis
    by (cases "i = t") (auto simp: one_timer_iff stopRefresh_def)
qed

lemma one_timer_at_most_one:
  assumes "one_timer b"
  shows "length (pending_timers b) \<le> 1"
proof -
  have d: "distinct (pending_timers b)"
    by (simp add: pending_timers_def)
  have "set (pending_timers b) \<subseteq> set_option (refresh b)"
    using assms by (auto simp: one_timer_def list_all_iff)
  then have "card (set (pending_timers b)) \<le> card (set_option (refresh b))"
    by (intro card_mono) simp_all
  also have "\<dots> \<le> 1"
    by (cases "refresh b") simp_all
  finally show ?thesis
    using d by (simp add: distinct_card)
qed

lemma handleMetaRefresh_timers:
  assumes h: "handleMetaRefresh env b = Returned b'"
    and st: "\<forall>i < length (timers b). timers b ! i = Stopped"
  shows "one_timer b' \<and> (\<forall>i < length (timers b). timers b' ! i = Stopped)"
proof -
  have "b' = b \<or> (\<exists>dur. b' = b\<lparr>refresh := Some (length (timers b)),
                                   timers := timers b @ [Armed dur]\<rparr>)"
    using h
    by (auto simp: handleMetaRefresh_def split: if_splits option.splits sum.splits outcome.splits)
  then show ?thesis
  proof
    assume "b' = b"
    with st show ?thesis by (simp add: one_timer_iff)
  next
    assume "\<exists>dur. b' = b\<lparr>refresh := Some (length (timers b)), timers := timers b @ [Armed dur]\<rparr>"
    then obtain dur where
      b': "b' = b\<lparr>refresh := Some (length (timers b)), timers := timers b @ [Armed dur]\<rparr>" ..
    have "timers b' ! i = Stopped" if "i < length (timers b)" for i
      using that st b' by (simp add: nth_append)
    moreover have "refresh b' = Some i"
      if "i < length (timers b')" "timers b' ! i \<noteq> Stopped" for i
      using that st b' by (cases "i < length (timers b)") (auto simp: nth_append)
    ultimately show ?thesis by (simp add: one_timer_iff)
  qed
qed

lemma handleMetaRefresh_unparsable:
  "Find b meta_refresh_selector = Returned sel \<Longrightarrow> Attr sel ''content'' = Some attr \<Longrightarrow>
   ParseDuration env (attr @ ''s'') = Inl e \<Longrightarrow> handleMetaRefresh env b = Returned b"
  by (simp add: handleMetaRefresh_def)

lemma all_stopped_map:
  "\<forall>i < length ts. ts ! i = Stopped \<Longrightarrow> map (\<lambda>t. Stopped) ts = ts"
  by (simp add: list_eq_iff_nth_eq)

lemma client_loop_timers_hidden:
  assumes "\<forall>i < length ts. ts ! i = Stopped"
  shows "client_loop fuel (timers_hidden env) check ts hm own req x
           = client_loop fuel env check ts hm own req x"
proof (induction fuel arbitrary: hm own req x)
  case 0
  show ?case by simp
next
  case (Suc fuel)
  have rt: "roundTrip (timers_hidden env) r h ts y = roundTrip env r h ts y" for r h y
    by (simp add: timers_hidden_def all_stopped_map[OF assms])
  have other: "jar_Cookies (timers_hidden env) = jar_Cookies env"
    "redirect_of (timers_hidden env) = redirect_of env"
    by (simp_all add: timers_hidden_def)
  show ?case
    by (simp add: rt other Suc.IH Let_def fun_upd_def split: prod.splits sum.splits option.splits)
qed

lemma handleMetaRefresh_timers_hidden:
  "handleMetaRefresh (timers_hidden env) b = handleMetaRefresh env b"
proof -
  have pd: "ParseDuration (timers_hidden env) = ParseDuration env"
    by (simp add: timers_hidden_def)
  show ?thesis
    unfolding handleMetaRefresh_def pd ..
qed

text \<open>
  With observers as handlers and no timer pending but the browser's, the transport never
  runs beside a pending timer: hiding the timers from it changes nothing, whether the
  call returns or not.
\<close>

lemma httpRequest_timers_hidden:
  assumes obs: "observers d" and inv: "one_timer b"
  shows "httpRequest fuel (timers_hidden env) d req (b, x) = httpRequest fuel env d req (b, x)"
proof -
  obtain r0 b1 x1 where pre0: "doPreRequest d req (b, x) = (r0, (b1, x1))"
    by (metis surj_pair)
  with obs have b1: "b1 = b" by (rule doPreRequest_observers)
  note pre = pre0[unfolded b1]
  have "\<forall>i < length (timers (stopRefresh b)). timers (stopRefresh b) ! i = Stopped"
    using inv by (simp add: stopRefresh_stops_all stopRefresh_frame)
  then have cl: "buildClient_Do fuel (timers_hidden env) (stopRefresh b) req x1
                   = buildClient_Do fuel env (stopRefresh b) req x1"
    by (simp add: buildClient_Do_def client_Do_def client_loop_timers_hidden)
  have nd: "NewDocumentFromResponse (timers_hidden env) = NewDocumentFromResponse env"
    by (simp add: timers_hidden_def)
  show ?thesis
    unfolding httpRequest_def pre nd handleMetaRefresh_timers_hidden
    by (cases r0) (simp_all add: cl Let_def)
qed

text \<open>
  C8. Let the handlers be observers and let no timer but the one \<^verbatim>\<open>bow.refresh\<close> points
  to be pending, as in a new browser. The timers of the runtime run while an exchange is
  in progress, so the model shows every exchange the timers as they are when it starts.
  A navigation contacts the transport only after it has stopped the timer: showing the
  transport all timers as stopped instead makes no difference to the call, for any
  transport and any fuel, whether the call returns or waits for the transport forever.
  After a call that returns, again no timer but the browser's is pending, so at most one
  is; if the call got past \<open>PreRequest\<close>, every timer that existed before it is stopped,
  whether the exchange failed or succeeded and whether or not a new timer was armed for
  the new page. A refresh directive whose delay does not parse leaves the browser as it
  was: no timer, no error.
\<close>

theorem navigation_cancels_refresh_timer:
  assumes obs: "observers d"
    and inv: "one_timer b"
  shows "httpRequest fuel (timers_hidden env) d req (b, x) = httpRequest fuel env d req (b, x)
       \<and> (\<forall>r b' x'. httpRequest fuel env d req (b, x) = Some (r, (b', x')) \<longrightarrow>
            one_timer b' \<and> length (pending_timers b') \<le> 1
            \<and> (fst (doPreRequest d req (b, x)) = None \<longrightarrow>
                 (\<forall>i < length (timers b). timers b' ! i = Stopped)))
       \<and> (\<forall>b0 sel attr e.
            Find b0 meta_refresh_selector = Returned sel \<and> Attr sel ''content'' = Some attr
            \<and> ParseDuration env (attr @ ''s'') = Inl e
            \<longrightarrow> handleMetaRefresh env b0 = Returned b0)"
proof -
  have stopped: "\<forall>i < length (timers b). timers (stopRefresh b) ! i = Stopped"
    using inv by (simp add: stopRefresh_stops_all)
  then have one_stopped: "one_timer (stopRefresh b)"
    by (simp add: one_timer_iff stopRefresh_frame)
  have main: "one_timer b'
       \<and> (fst (doPreRequest d req (b, x)) = None \<longrightarrow>
            (\<forall>i < length (timers b). timers b' ! i = Stopped))"
    if run: "httpRequest fuel env d req (b, x) = Some (r, (b', x'))" for r b' x'
    using obs run
  proof (cases rule: httpRequest_cases)
    case (veto err)
    with inv show ?thesis by simp
  next
    case (transport x1 hm2 err)
    with stopped one_stopped show ?thesis by (simp add: one_timer_iff)
  next
    case (parse x1 hm2 resp err)
    with stopped one_stopped show ?thesis by (simp add: one_timer_iff)
  next
    case (commit x1 x2 hm2 resp doc r')
    let ?b4 = "(stopRefresh b)\<lparr>header_maps := hm2,
                               history := Push (history (stopRefresh b)) (state (stopRefresh b)),
                               state := Some (NewHistoryState req resp doc)\<rparr>"
    from stopped have "\<forall>i < length (timers ?b4). timers ?b4 ! i = Stopped"
      by (simp add: stopRefresh_frame)
    from handleMetaRefresh_timers[OF commit(4) this] show ?thesis
      by (simp add: stopRefresh_frame)
  qed
  have post: "one_timer b' \<and> length (pending_timers b') \<le> 1
       \<and> (fst (doPreRequest d req (b, x)) = None \<longrightarrow>
            (\<forall>i < length (timers b). timers b' ! i = Stopped))"
    if run: "httpRequest fuel env d req (b, x) = Some (r, (b', x'))" for r b' x'
    using main[OF run] one_timer_at_most_one[of b'] by blast
  from httpRequest_timers_hidden[OF obs inv, of fuel env req x] post
    handleMetaRefresh_unparsable[of _ _ _ env]
  show ?thesis by blast
qed

lemma one_timer_NewBrowser: "one_timer (NewBrowser ua)"
  by (simp add: one_timer_def pending_timers_def NewBrowser_def)

theorem navigation_cancels_refresh_timer_witness:
  "observers d0 \<and> one_timer refreshing_browser
   \<and> fst (doPreRequest d0 (get0 ''http://a/refresh'') (refreshing_browser, 0)) = None
   \<and> httpRequest 1 (timers_hidden env0) d0 (get0 ''http://a/refresh'') (refreshing_browser, 0)
       = httpRequest 1 env0 d0 (get0 ''http://a/refresh'') (refreshing_browser, 0)
   \<and> (\<exists>b' x'. httpRequest 1 env0 d0 (get0 ''http://a/refresh'') (refreshing_browser, 0)
                 = Some (Returned None, (b', x'))
         \<and> timers refreshing_browser = [Armed 2000000000]
         \<and> timers b' = [Stopped, Armed 2000000000] \<and> refresh b' = Some 1
         \<and> one_timer b' \<and> length (pending_timers b') \<le> 1)
   \<and> Find (loaded_browser ''http://a/badrefresh'') meta_refresh_selector
       = Returned [\<lparr>el_tag = ''meta'',
                     el_attrs = [(''http-equiv'', ''refresh''), (''content'', ''2; url=/x'')]\<rparr>]
   \<and> ParseDuration env0 (''2; url=/x'' @ ''s'') = Inl (External ''invalid duration'')
   \<and> handleMetaRefresh env0 (loaded_browser ''http://a/badrefresh'')
       = Returned (loaded_browser ''http://a/badrefresh'')"
proof -
  let ?req = "get0 ''http://a/refresh''"
  let ?bad = "loaded_browser ''http://a/badrefresh''"
  let ?sel = "[\<lparr>el_tag = ''meta'',
                 el_attrs = [(''http-equiv'', ''refresh''), (''content'', ''2; url=/x'')]\<rparr>]"
  have inv: "one_timer refreshing_browser"
    by (simp add: one_timer_def pending_timers_def refreshing_browser_def loaded_browser_def
        NewBrowser_def)
  have pre: "fst (doPreRequest d0 ?req (refreshing_browser, 0)) = None"
    by (simp add: doPreRequest_def Do_def d0_def NewBrowser_dispatcher_def On_def NewDispatcher_def)
  have "\<exists>w. httpRequest 1 env0 d0 ?req (refreshing_browser, 0) = Some (Returned None, w)
            \<and> timers (fst w) = [Stopped, Armed 2000000000] \<and> refresh (fst w) = Some 1"
    by (simp add: run_defs refreshing_browser_def loaded_browser_def)
  then obtain b' x' where
    run: "httpRequest 1 env0 d0 ?req (refreshing_browser, 0) = Some (Returned None, (b', x'))"
    and t: "timers b' = [Stopped, Armed 2000000000]" "refresh b' = Some 1"
    by auto
  have f: "Find ?bad meta_refresh_selector = Returned ?sel"
    by (simp add: Find_def loaded_browser_def NewHistoryState_def page_def meta_refresh_selector_def)
  have a: "Attr ?sel ''content'' = Some ''2; url=/x''"
    by (simp add: Attr_def)
  have p: "ParseDuration env0 (''2; url=/x'' @ ''s'') = Inl (External ''invalid duration'')"
    by (simp add: env0_def)
  have t0: "timers refreshing_browser = [Armed 2000000000]"
    by (simp add: refreshing_browser_def)
  note inst = navigation_cancels_refresh_timer[OF observers_d0 inv, of 1 env0 ?req 0]
  from inst have eq: "httpRequest 1 (timers_hidden env0) d0 ?req (refreshing_browser, 0)
       = httpRequest 1 env0 d0 ?req (refreshing_browser, 0)"
    by blast
  from inst run pre f a p
  have "one_timer b'" "length (pending_timers b') \<le> 1"
    "handleMetaRefresh env0 ?bad = Returned ?bad"
    by blast+
  with observers_d0 inv pre eq run t t0 f p show ?thesis by blast
qed

section \<open>The headers jar\<close>

lemma buildRequest_shares_jar:
  assumes "headers b = Some h" "url_Parse env u = Inr u'"
  shows "\<exists>b1. buildRequest env b m u ref
                = (Returned (Inr \<lparr>Method = m, URL = u', Header = h, Body = None\<rparr>), b1)
           \<and> headers b1 = Some h \<and> userAgent b1 = userAgent b \<and> attributes b1 = attributes b
           \<and> auth b1 = auth b
           \<and> (\<forall>key. header_maps b1 h key = header_maps b h key @
                 (if key = ''User-Agent'' then [userAgent b]
                  else if key = ''Referer'' then referer_values b ref
                  else if key = ''Authorization'' then authorization_values env b
                  else []))"
  using assms
  by (cases ref)
     (simp_all add: buildRequest_def heap_Add_def Header_Add_def Let_def referer_values_def
        authorization_values_def)

lemma httpPOST_adds_to_jar:
  assumes obs: "observers d" and hj: "headers b = Some h" and up: "url_Parse env u = Inr u'"
    and run: "httpPOST fuel env d u ref contentType body (b, x) = Some (r, (b', x'))"
  shows "headers b' = Some h \<and> userAgent b' = userAgent b \<and> attributes b' = attributes b
       \<and> auth b' = auth b \<and> r \<noteq> Panicked
       \<and> (\<forall>key. key \<noteq> ''Cookie'' \<longrightarrow>
              header_maps b' h key = header_maps b h key @ added_values env b ref contentType key)"
proof -
  from buildRequest_shares_jar[OF hj up, of "''POST''" ref] obtain b1 where
    br: "buildRequest env b ''POST'' u ref
           = (Returned (Inr \<lparr>Method = ''POST'', URL = u', Header = h, Body = None\<rparr>), b1)"
    and f1: "headers b1 = Some h" "userAgent b1 = userAgent b" "attributes b1 = attributes b"
      "auth b1 = auth b"
    and k1: "\<And>key. header_maps b1 h key = header_maps b h key @
                 (if key = ''User-Agent'' then [userAgent b]
                  else if key = ''Referer'' then referer_values b ref
                  else if key = ''Authorization'' then authorization_values env b
                  else [])"
    by blast
  let ?req = "\<lparr>Method = ''POST'', URL = u', Header = h, Body = body\<rparr>"
  let ?b2 = "heap_Add h ''Content-Type'' contentType b1"
  from run br have run': "httpRequest fuel env d ?req (?b2, x) = Some (r, (b', x'))"
    by (simp add: httpPOST_def Let_def)
  have k2: "header_maps ?b2 h key = header_maps b h key @ added_values env b ref contentType key"
    for key
    by (simp add: heap_Add_def Header_Add_def k1 added_values_def)
  have f2: "headers ?b2 = Some h" "userAgent ?b2 = userAgent b" "attributes ?b2 = attributes b"
    "auth ?b2 = auth b"
    using f1 by (simp_all add: heap_Add_def)
  from httpRequest_frame[OF obs run'] f2 k2 show ?thesis by simp
qed

lemma added_values_cong:
  "userAgent b1 = userAgent b \<Longrightarrow> attributes b1 = attributes b \<Longrightarrow> auth b1 = auth b \<Longrightarrow>
   added_values env b1 ref contentType key = added_values env b ref contentType key"
  by (cases ref) (simp_all add: added_values_def referer_values_def authorization_values_def)

lemma POSTs_accumulate:
  assumes obs: "observers d" and up: "url_Parse env u = Inr u'"
  shows "headers b = Some h \<Longrightarrow> POSTs n fuel env d u ref contentType body (b, x) = Some (b', x') \<Longrightarrow>
         headers b' = Some h
       \<and> (\<forall>key. key \<noteq> ''Cookie'' \<longrightarrow> header_maps b' h key
              = header_maps b h key @ concat (replicate n (added_values env b ref contentType key)))"
proof (induction n arbitrary: b x)
  case 0
  then show ?case by simp
next
  case (Suc n)
  from Suc.prems(2) obtain r b1 x1 where
    step: "httpPOST fuel env d u ref contentType body (b, x) = Some (Returned r, (b1, x1))"
    and rest: "POSTs n fuel env d u ref contentType body (b1, x1) = Some (b', x')"
    by (auto split: option.splits outcome.splits)
  from httpPOST_adds_to_jar[OF obs Suc.prems(1) up step] have
    f: "headers b1 = Some h" "userAgent b1 = userAgent b" "attributes b1 = attributes b"
      "auth b1 = auth b"
    and k: "\<And>key. key \<noteq> ''Cookie'' \<Longrightarrow>
              header_maps b1 h key = header_maps b h key @ added_values env b ref contentType key"
    by blast+
  have av: "added_values env b1 ref contentType key = added_values env b ref contentType key"
    for key
    by (rule added_values_cong[OF f(2,3,4)])
  from Suc.IH[OF f(1) rest] have h': "headers b' = Some h"
    and kk: "\<And>key. key \<noteq> ''Cookie'' \<Longrightarrow> header_maps b' h key
               = header_maps b1 h key @ concat (replicate n (added_values env b1 ref contentType key))"
    by blast+
  show ?case
    using h' by (simp add: kk k av)
qed

text \<open>
  C10. Let the browser have a headers jar, at address \<open>h\<close>. The request \<^verbatim>\<open>buildRequest\<close>
  returns has that same address as its header map, and the \<^verbatim>\<open>User-Agent\<close> value it adds
  is in the jar afterwards. After \<open>n\<close> POST navigations that return (with handlers that
  are observers), the jar is still the browser's jar and holds, for every key but
  \<^verbatim>\<open>Cookie\<close>, the values it had before followed by \<open>n\<close> copies of what one request
  assembly adds for that key: the user agent, the referer if one is sent, the
  authorization if credentials are set, and the content type. Every later request
  points to the jar and is sent with all of them. (Under \<^verbatim>\<open>Cookie\<close> the jar holds what
  the client wrote there when it sent the requests, through the same reference.)
\<close>

theorem request_headers_alias_the_jar:
  assumes obs: "observers d" and hj: "headers b = Some h" and up: "url_Parse env u = Inr u'"
    and run: "POSTs n fuel env d u ref contentType body (b, x) = Some (b', x')"
  shows "(\<exists>b1. buildRequest env b m u ref
                 = (Returned (Inr \<lparr>Method = m, URL = u', Header = h, Body = None\<rparr>), b1)
            \<and> headers b1 = Some h
            \<and> header_maps b1 h ''User-Agent'' = header_maps b h ''User-Agent'' @ [userAgent b])
       \<and> headers b' = Some h
       \<and> (\<forall>key. key \<noteq> ''Cookie'' \<longrightarrow> header_maps b' h key
              = header_maps b h key @ concat (replicate n (added_values env b ref contentType key)))
       \<and> header_maps b' h ''User-Agent'' = header_maps b h ''User-Agent'' @ replicate n (userAgent b)
       \<and> header_maps b' h ''Referer'' = header_maps b h ''Referer'' @ concat (replicate n (referer_values b ref))
       \<and> header_maps b' h ''Authorization''
            = header_maps b h ''Authorization'' @ concat (replicate n (authorization_values env b))
       \<and> header_maps b' h ''Content-Type'' = header_maps b h ''Content-Type'' @ replicate n contentType"
proof -
  from buildRequest_shares_jar[OF hj up, of m ref] have
    one: "\<exists>b1. buildRequest env b m u ref
                 = (Returned (Inr \<lparr>Method = m, URL = u', Header = h, Body = None\<rparr>), b1)
            \<and> headers b1 = Some h
            \<and> header_maps b1 h ''User-Agent'' = header_maps b h ''User-Agent'' @ [userAgent b]"
    by auto
  from POSTs_accumulate[OF obs up hj run] have
    h': "headers b' = Some h"
    and k: "\<forall>key. key \<noteq> ''Cookie'' \<longrightarrow> header_maps b' h key
              = header_maps b h key @ concat (replicate n (added_values env b ref contentType key))"
    by blast+
  have c: "concat (replicate n [v]) = replicate n v" for v :: string
    by (induction n) simp_all
  from k have
    "header_maps b' h ''User-Agent'' = header_maps b h ''User-Agent'' @ replicate n (userAgent b)"
    "header_maps b' h ''Referer'' = header_maps b h ''Referer'' @ concat (replicate n (referer_values b ref))"
    "header_maps b' h ''Authorization''
       = header_maps b h ''Authorization'' @ concat (replicate n (authorization_values env b))"
    "header_maps b' h ''Content-Type'' = header_maps b h ''Content-Type'' @ replicate n contentType"
    by (simp_all add: added_values_def c)
  with one h' k show ?thesis by blast
qed

theorem request_headers_alias_the_jar_witness:
  "observers d0 \<and> headers (NewBrowser ''surf'') = Some 0
   \<and> url_Parse env0 ''http://a/'' = Inr ''http://a/''
   \<and> (\<exists>b' x'. POSTs 2 1 env0 d0 ''http://a/'' (Some ''http://a/prev'') ''text/plain'' (Some ''x=1'')
                   (NewBrowser ''surf'', 0) = Some (b', x')
         \<and> header_maps b' 0 ''User-Agent'' = [''surf'', ''surf'']
         \<and> header_maps b' 0 ''Referer'' = [''http://a/prev'', ''http://a/prev'']
         \<and> header_maps b' 0 ''Content-Type'' = [''text/plain'', ''text/plain'']
         \<and> header_maps b' 0 ''Authorization'' = []
         \<and> header_maps b' 0 ''Cookie'' = [''sid=abc''])"
proof -
  let ?b = "NewBrowser ''surf''"
  have hj: "headers ?b = Some 0" by (simp add: NewBrowser_def)
  have up: "url_Parse env0 ''http://a/'' = Inr ''http://a/''" by (simp add: env0_def)
  have "\<exists>w. POSTs 2 1 env0 d0 ''http://a/'' (Some ''http://a/prev'') ''text/plain'' (Some ''x=1'')
               (?b, 0) = Some w \<and> header_maps (fst w) 0 ''Cookie'' = [''sid=abc'']"
    by (simp add: numeral_2_eq_2 httpPOST_def buildRequest_def heap_Add_def Header_Add_def run_defs)
  then obtain b' x' where
    run: "POSTs 2 1 env0 d0 ''http://a/'' (Some ''http://a/prev'') ''text/plain'' (Some ''x=1'')
            (?b, 0) = Some (b', x')"
    and ck: "header_maps b' 0 ''Cookie'' = [''sid=abc'']"
    by auto
  from request_headers_alias_the_jar[OF observers_d0 hj up run, of "''POST''"] have
    "\<forall>key. key \<noteq> ''Cookie'' \<longrightarrow> header_maps b' 0 key
        = header_maps ?b 0 key
          @ concat (replicate 2 (added_values env0 ?b (Some ''http://a/prev'') ''text/plain'' key))"
    by blast
  then have
    "header_maps b' 0 ''User-Agent'' = [''surf'', ''surf'']"
    "header_maps b' 0 ''Referer'' = [''http://a/prev'', ''http://a/prev'']"
    "header_maps b' 0 ''Content-Type'' = [''text/plain'', ''text/plain'']"
    "header_maps b' 0 ''Authorization'' = []"
    by (simp_all add: numeral_2_eq_2 added_values_def referer_values_def authorization_values_def
        NewBrowser_def)
  with observers_d0 hj up run ck show ?thesis by blast
qed

section \<open>Every browser the calls can build\<close>

text \<open>
  Whatever the handlers do, a call of \<^verbatim>\<open>httpRequest\<close> is vetoed, or waits for a transport
  that does not return, or returns without panic.
\<close>

lemma httpRequest_outcome:
  obtains
    (veto) err w1 where
      "doPreRequest d req w = (Some err, w1)"
      "httpRequest fuel env d req w = Some (Returned (Some err), w1)"
  | (waits) b1 x1 where
      "doPreRequest d req w = (None, (b1, x1))"
      "buildClient_Do fuel env (stopRefresh b1) req x1 = None"
      "httpRequest fuel env d req w = None"
  | (returns) b1 x1 p r w' where
      "doPreRequest d req w = (None, (b1, x1))"
      "buildClient_Do fuel env (stopRefresh b1) req x1 = Some p"
      "httpRequest fuel env d req w = Some (Returned r, w')"
proof -
  obtain r0 w1 where pre: "doPreRequest d req w = (r0, w1)"
    by (cases "doPreRequest d req w")
  obtain b1 x1 where w1: "w1 = (b1, x1)" by (cases w1)
  show thesis
  proof (cases r0)
    case (Some err)
    from veto[OF pre[unfolded Some] httpRequest_veto[OF pre[unfolded Some]]] show ?thesis .
  next
    case None
    note pre' = pre[unfolded None w1]
    let ?b2 = "stopRefresh b1"
    show ?thesis
    proof (cases "buildClient_Do fuel env ?b2 req x1")
      case cn: None
      from waits[OF pre' cn httpRequest_no_return[OF pre' cn]] show ?thesis .
    next
      case (Some p)
      obtain res hm2 x2 where p: "p = (res, hm2, x2)" by (metis prod_cases3)
      note cl = Some[unfolded p]
      show ?thesis
      proof (cases res)
        case (Inl err)
        from returns[OF pre' Some httpRequest_transport_error[OF pre' cl[unfolded Inl]]]
        show ?thesis .
      next
        case (Inr resp)
        note cl' = cl[unfolded Inr]
        show ?thesis
        proof (cases "NewDocumentFromResponse env resp")
          case (Inl err)
          from returns[OF pre' Some httpRequest_parse_error[OF pre' cl' Inl]] show ?thesis .
        next
          case doc: (Inr doc)
          from handleMetaRefresh_committed obtain b5 where
            h: "handleMetaRefresh env
                  (?b2\<lparr>header_maps := hm2, history := Push (history ?b2) (state ?b2),
                        state := Some (NewHistoryState req resp doc)\<rparr>) = Returned b5"
            by blast
          obtain r' w' where post: "doPostRequest d resp (b5, x2) = (r', w')"
            by (cases "doPostRequest d resp (b5, x2)")
          from returns[OF pre' Some httpRequest_commit[OF pre' cl' doc h post]] show ?thesis .
        qed
      qed
    qed
  qed
qed

lemma httpRequest_never_panics:
  "httpRequest fuel env d req w \<noteq> Some (Panicked, w')"
  by (cases rule: httpRequest_outcome[of d req w fuel env]) simp_all

text \<open>The call returns exactly when the transport does.\<close>

lemma httpRequest_returns_iff:
  "httpRequest fuel env d req w = None \<longleftrightarrow>
     (\<exists>b1 x1. doPreRequest d req w = (None, (b1, x1))
        \<and> buildClient_Do fuel env (stopRefresh b1) req x1 = None)"
  by (cases rule: httpRequest_outcome[of d req w fuel env]) auto

lemma client_loop_more_fuel:
  "client_loop fuel env check ts hm own req x = Some out \<Longrightarrow>
   client_loop (fuel + k) env check ts hm own req x = Some out"
proof (induction fuel env check ts hm own req x rule: client_loop.induct)
  case (1 env CheckRedirect ts hm own req x)
  then show ?case by simp
next
  case (2 fuel env CheckRedirect ts hm own req x)
  let ?hdr = "add_cookies (case own of None \<Rightarrow> hm (Header req) | Some m \<Rightarrow> m)
                (jar_Cookies env (URL req) x)"
  let ?hm = "case own of None \<Rightarrow> hm(Header req := ?hdr) | Some m \<Rightarrow> hm"
  obtain res x1 where rt: "roundTrip env req ?hdr ts x = (res, x1)"
    by (cases "roundTrip env req ?hdr ts x")
  show ?case
  proof (cases res)
    case (Inl err)
    from "2.prems" have out: "out = (Inl (UrlError err), ?hm, x1)" by (simp add: Let_def rt Inl)
    show ?thesis unfolding out by (simp add: Let_def rt Inl)
  next
    case (Inr resp)
    show ?thesis
    proof (cases "redirect_of env req ?hdr resp")
      case None
      from "2.prems" have out: "out = (Inr resp, ?hm, x1)" by (simp add: Let_def rt Inr None)
      show ?thesis unfolding out by (simp add: Let_def rt Inr None)
    next
      case (Some p)
      obtain req' m' where p: "p = (req', m')" by (cases p)
      show ?thesis
      proof (cases "CheckRedirect req'")
        case None
        from "2.prems" have
          "client_loop fuel env CheckRedirect ts ?hm (Some m') req' x1 = Some out"
          by (simp add: Let_def rt Inr Some p None)
        from "2.IH"[OF refl refl rt[symmetric] Inr Some p[symmetric] None this] show ?thesis
          by (simp add: Let_def rt Inr Some p None)
      next
        case e: (Some err)
        from "2.prems" have out: "out = (Inl (UrlError err), ?hm, x1)"
          by (simp add: Let_def rt Inr Some p e)
        show ?thesis unfolding out by (simp add: Let_def rt Inr Some p e)
      qed
    qed
  qed
qed

lemma buildClient_Do_more_fuel:
  "buildClient_Do fuel env b req x = Some out \<Longrightarrow> buildClient_Do (fuel + k) env b req x = Some out"
  unfolding buildClient_Do_def client_Do_def by (rule client_loop_more_fuel)

lemma buildClient_Do_redirects_off:
  "\<not> attributes b FollowRedirects \<Longrightarrow> buildClient_Do (Suc fuel) env b req x \<noteq> None"
  by (simp add: buildClient_Do_def client_Do_def Let_def shouldRedirect_def
      split: prod.splits sum.splits option.splits)

lemma buildRequest_frame:
  assumes "buildRequest env b method u ref = (r, b')"
  shows "state b' = state b" "history b' = history b" "refresh b' = refresh b" "timers b' = timers b"
proof -
  have "state (snd (buildRequest env b method u ref)) = state b
      \<and> history (snd (buildRequest env b method u ref)) = history b
      \<and> refresh (snd (buildRequest env b method u ref)) = refresh b
      \<and> timers (snd (buildRequest env b method u ref)) = timers b"
    by (simp add: buildRequest_def heap_Add_def Let_def split: sum.splits option.splits)
  with assms show "state b' = state b" "history b' = history b" "refresh b' = refresh b"
    "timers b' = timers b"
    by simp_all
qed

lemma one_timer_httpRequest:
  assumes "observers d" "one_timer b" "httpRequest fuel env d req (b, x) = Some (r, (b', x'))"
  shows "one_timer b'"
  using assms(1,3)
proof (cases rule: httpRequest_cases)
  case (veto err)
  with assms(2) show ?thesis by simp
next
  case (transport x1 hm2 err)
  with assms(2) show ?thesis
    by (simp add: one_timer_iff stopRefresh_stops_all stopRefresh_frame)
next
  case (parse x1 hm2 resp err)
  with assms(2) show ?thesis
    by (simp add: one_timer_iff stopRefresh_stops_all stopRefresh_frame)
next
  case (commit x1 x2 hm2 resp doc r')
  let ?b4 = "(stopRefresh b)\<lparr>header_maps := hm2,
                             history := Push (history (stopRefresh b)) (state (stopRefresh b)),
                             state := Some (NewHistoryState req resp doc)\<rparr>"
  from assms(2) have "\<forall>i < length (timers ?b4). timers ?b4 ! i = Stopped"
    by (simp add: stopRefresh_frame stopRefresh_stops_all)
  from handleMetaRefresh_timers[OF commit(4) this] show ?thesis by simp
qed

lemma sound_httpRequest:
  "observers d \<Longrightarrow> sound b \<Longrightarrow> httpRequest fuel env d req (b, x) = Some (r, (b', x')) \<Longrightarrow> sound b'"
  unfolding sound_def by (blast intro: well_formed_httpRequest one_timer_httpRequest)

lemma sound_cong:
  "state b' = state b \<Longrightarrow> history b' = history b \<Longrightarrow> refresh b' = refresh b \<Longrightarrow>
   timers b' = timers b \<Longrightarrow> sound b' = sound b"
  by (simp add: sound_def well_formed_def one_timer_def pending_timers_def)

lemma sound_httpGET:
  assumes obs: "observers d" and s: "sound b"
    and run: "httpGET fuel env d u ref (b, x) = Some (r, (b', x'))"
  shows "sound b'"
proof -
  obtain o1 b1 where br: "buildRequest env b ''GET'' u ref = (o1, b1)"
    by (cases "buildRequest env b ''GET'' u ref")
  from sound_cong[OF buildRequest_frame[OF br]] s have s1: "sound b1"
    by simp
  show ?thesis
  proof (cases o1)
    case Panicked
    with br run s1 show ?thesis by (simp add: httpGET_def)
  next
    case (Returned res)
    show ?thesis
    proof (cases res)
      case (Inl err)
      with Returned br run s1 show ?thesis by (simp add: httpGET_def)
    next
      case (Inr req)
      with Returned br run have "httpRequest fuel env d req (b1, x) = Some (r, (b', x'))"
        by (simp add: httpGET_def)
      from sound_httpRequest[OF obs s1 this] show ?thesis .
    qed
  qed
qed

lemma sound_httpPOST:
  assumes obs: "observers d" and s: "sound b"
    and run: "httpPOST fuel env d u ref contentType body (b, x) = Some (r, (b', x'))"
  shows "sound b'"
proof -
  obtain o1 b1 where br: "buildRequest env b ''POST'' u ref = (o1, b1)"
    by (cases "buildRequest env b ''POST'' u ref")
  from sound_cong[OF buildRequest_frame[OF br]] s have s1: "sound b1"
    by simp
  show ?thesis
  proof (cases o1)
    case Panicked
    with br run s1 show ?thesis by (simp add: httpPOST_def)
  next
    case (Returned res)
    show ?thesis
    proof (cases res)
      case (Inl err)
      with Returned br run s1 show ?thesis by (simp add: httpPOST_def)
    next
      case (Inr req)
      let ?b2 = "heap_Add (Header (req\<lparr>Body := body\<rparr>)) ''Content-Type'' contentType b1"
      from s1 have s2: "sound ?b2"
        by (simp add: heap_Add_def sound_def well_formed_def one_timer_def pending_timers_def)
      from Inr Returned br run have
        "httpRequest fuel env d (req\<lparr>Body := body\<rparr>) (?b2, x) = Some (r, (b', x'))"
        by (simp add: httpPOST_def Let_def)
      from sound_httpRequest[OF obs s2 this] show ?thesis .
    qed
  qed
qed

lemma sound_Back:
  assumes "sound b" "Back (b, x) = (r, (b', x'))"
  shows "sound b'"
proof -
  from assms have wf: "well_formed b'"
    unfolding sound_def by (blast dest: well_formed_Back)
  have "refresh (fst (snd (Back (b, x)))) = refresh b
      \<and> timers (fst (snd (Back (b, x)))) = timers b"
    by (simp add: Back_def Let_def Pop_def split: option.splits)
  with assms(2) have "refresh b' = refresh b \<and> timers b' = timers b"
    by simp
  with assms(1) wf show ?thesis
    by (simp add: sound_def one_timer_def pending_timers_def)
qed

lemma sound_perform:
  assumes obs: "observers d" and s: "sound b"
    and run: "perform fuel env d a (b, x) = Some (b', x')"
  shows "sound b'"
proof (cases a)
  case (CallOpen u)
  show ?thesis
  proof (cases "url_Parse env u")
    case (Inl err)
    with CallOpen run s show ?thesis by (auto simp: Open_def)
  next
    case (Inr ur)
    with CallOpen run obtain r where "httpGET fuel env d ur None (b, x) = Some (r, (b', x'))"
      by (auto simp: Open_def)
    from sound_httpGET[OF obs s this] show ?thesis .
  qed
next
  case (CallPost u contentType body)
  show ?thesis
  proof (cases "url_Parse env u")
    case (Inl err)
    with CallPost run s show ?thesis by (auto simp: Post_def)
  next
    case (Inr ur)
    with CallPost run obtain r where
      "httpPOST fuel env d ur None contentType body (b, x) = Some (r, (b', x'))"
      by (auto simp: Post_def)
    from sound_httpPOST[OF obs s this] show ?thesis .
  qed
next
  case CallBack
  with run have "Back (b, x) = (fst (Back (b, x)), (b', x'))"
    by (cases "Back (b, x)") simp
  from sound_Back[OF s this] show ?thesis .
next
  case CallReload
  show ?thesis
  proof (cases "state b")
    case None
    with CallReload run s show ?thesis by (auto simp: Reload_def)
  next
    case (Some st)
    show ?thesis
    proof (cases "Request st")
      case None
      with Some CallReload run s show ?thesis by (auto simp: Reload_def)
    next
      case (Some q)
      with \<open>state b = Some st\<close> CallReload run obtain r where
        "httpRequest fuel env d q (b, x) = Some (r, (b', x'))"
        by (auto simp: Reload_def)
      from sound_httpRequest[OF obs s this] show ?thesis .
    qed
  qed
qed

text \<open>
  Whatever calls are made on a new browser, with handlers that are observers, the
  browser stays well formed and at most the timer it points to is pending.
\<close>

lemma sound_perform_all:
  assumes obs: "observers d"
  shows "sound b \<Longrightarrow> perform_all fuel env d as (b, x) = Some (b', x') \<Longrightarrow> sound b'"
proof (induction as arbitrary: b x)
  case Nil
  then show ?case by simp
next
  case (Cons a as)
  from Cons.prems(2) obtain b1 x1 where
    p: "perform fuel env d a (b, x) = Some (b1, x1)"
    and rest: "perform_all fuel env d as (b1, x1) = Some (b', x')"
    by (auto split: option.splits)
  from Cons.IH[OF sound_perform[OF obs Cons.prems(1) p] rest] show ?case .
qed

lemma reachable_sound:
  assumes "observers d" "perform_all fuel env d as (NewBrowser ua, x) = Some (b', x')"
  shows "well_formed b'" "one_timer b'" "list_all loaded (tl (history b'))"
proof -
  have "sound (NewBrowser ua)"
    by (simp add: sound_def well_formed_NewBrowser one_timer_NewBrowser)
  from sound_perform_all[OF assms(1) this assms(2)] show "well_formed b'" "one_timer b'"
    by (simp_all add: sound_def)
  then show "list_all loaded (tl (history b'))"
    by (simp add: well_formed_history)
qed

end
